theory Spec2Isabelle
  imports Complex_Main "HOL-Library.AList"
begin

section \<open>The canvas marker layer of leaflet-canvasify\<close>

text \<open>
  A shallow embedding of the class \<open>CanvasLayer\<close> of \<open>src/leaflet-markers-canvas.ts\<close>.
  The class holds two spatial indices (\<open>_positionsTree\<close> over geographic positions,
  \<open>_markersTree\<close> over screen boxes), the table \<open>_layers\<close> of registered markers, the
  icon cache \<open>_icons\<close> and the halo colour memo \<open>_colorMap\<close>. Every method becomes a
  function from the layer's state to the state it leaves behind, paired with the error
  it threw (if any): a JavaScript exception keeps the mutations made before it.

  Numbers are JavaScript doubles in the source and reals here. Marker objects are shared
  and mutated (\<open>marker.image\<close>), so they live in a heap indexed by a reference; Leaflet's
  \<open>L.Util.stamp\<close> gives every object one \<open>_leaflet_id\<close> of its own, and the reference
  of a marker stands for that id.
\<close>

subsection \<open>Leaflet: positions, bounds, the map host\<close>

type_synonym point = "real \<times> real"

record latlng =
  lat :: real
  lng :: real

text \<open>\<open>L.LatLngBounds\<close> of the map's viewport, and \<open>bounds.contains(latLng)\<close> (inclusive).\<close>

record llbounds =
  south :: real
  west :: real
  north :: real
  east :: real

definition contains :: "llbounds \<Rightarrow> latlng \<Rightarrow> bool" where
  "contains b p = (south b \<le> lat p \<and> lat p \<le> north b \<and> west b \<le> lng p \<and> lng p \<le> east b)"

text \<open>
  The map host, as far as the layer consumes it: \<open>map.getBounds()\<close> and
  \<open>map.latLngToContainerPoint(latLng)\<close>.
\<close>

record lmap =
  getMapBounds :: llbounds
  latLngToContainerPoint :: "latlng \<Rightarrow> point"

subsection \<open>Markers\<close>

type_synonym marker_ref = nat

text \<open>
  An \<open>HTMLImageElement\<close>, known by its \<open>src\<close>. The browser resolves the URL assigned to
  \<open>src\<close> against the document; icon URLs are taken here in the form \<open>src\<close> gives
  back.
\<close>

datatype image = HTMLImageElement (src: string)

record icon_options =
  iconUrl :: "string option"
  iconSize :: "point option"
  iconAnchor :: "point option"

record marker_options =
  pane :: string
  icon :: "icon_options option"

text \<open>\<open>ExtendedMarker\<close>: a Leaflet marker with the fields the layer adds to it.\<close>

record marker_obj =
  latLng :: latlng
  options :: marker_options
  marker_image :: "image option"
  indicators :: "string list option"

subsection \<open>RBush\<close>

text \<open>
  \<open>RBushBox\<close> is a bounding box with the marker it belongs to. The R-tree itself is the
  library \<open>rbush\<close>. The layer's state keeps of each tree the list of its items, in the
  order in which the tree is traversed, and gives the operations the layer calls their
  documented meaning: \<open>load\<close> inserts all items, \<open>search\<close> returns the items whose box
  intersects the query box (borders included), \<open>clear\<close> empties the tree.

  \<open>remove(item, equalsFn)\<close> walks the tree from its root. It goes down only into inner
  nodes whose box contains the box of \<open>item\<close> (the library's \<open>contains\<close>), and deletes
  the first item of the leaves it comes to that \<open>equalsFn\<close> accepts. The box of an inner
  node contains the boxes of all items below it, so the library comes to every item
  whose own box contains the box of \<open>item\<close>, in a tree of any shape. Whether it comes to
  an item whose box does not contain it depends on the shape of the tree, which the list
  does not keep: a single leaf is searched whole, and a root that does not contain the
  box passed in (ten items or more, loaded at once, and a box outside them all) is not
  opened at all. The \<open>remove\<close> of the list comes to an item exactly when the item's own
  box contains the box passed in, the one case that no shape changes. Where a removal is
  proved below to find its item, the index holds the marker at the position the marker
  has now: by a hypothesis of the theorem, or because nothing in the run it is about
  moves a marker.
\<close>

record bbox =
  minX :: real
  minY :: real
  maxX :: real
  maxY :: real

record rbushbox = bbox +
  marker :: marker_ref

type_synonym rbush = "rbushbox list"

definition intersects :: "('a bbox_scheme) \<Rightarrow> ('b bbox_scheme) \<Rightarrow> bool" where
  "intersects a b = (minX b \<le> maxX a \<and> minY b \<le> maxY a \<and> maxX b \<ge> minX a \<and> maxY b \<ge> minY a)"

definition load :: "rbushbox list \<Rightarrow> rbush \<Rightarrow> rbush" where
  "load items t = t @ items"

definition search :: "bbox \<Rightarrow> rbush \<Rightarrow> rbushbox list" where
  "search q t = filter (\<lambda>b. intersects q b) t"

definition contains_bbox :: "('a bbox_scheme) \<Rightarrow> ('b bbox_scheme) \<Rightarrow> bool" where
  "contains_bbox a b = (minX a \<le> minX b \<and> minY a \<le> minY b \<and> maxX b \<le> maxX a \<and> maxY b \<le> maxY a)"

fun remove :: "rbushbox \<Rightarrow> (rbushbox \<Rightarrow> rbushbox \<Rightarrow> bool) \<Rightarrow> rbush \<Rightarrow> rbush" where
  "remove item equalsFn [] = []"
| "remove item equalsFn (b # t) =
     (if contains_bbox b item \<and> equalsFn item b then t else b # remove item equalsFn t)"

text \<open>
  The tree behind the list, to compare the two. A leaf holds items and an inner node
  holds nodes; the box of a node is the smallest box around the items below it (the
  library recomputes or extends it on every change), so it contains a given box when
  items below it reach as far as that box on each of the four sides. \<open>tree_remove\<close> is
  the traversal of the library's \<open>remove\<close>: a leaf is searched for the first item the
  equality function accepts, an inner node is opened when its box contains the box of
  the item passed in, its children are tried from left to right, and a node left
  without children is dropped (\<open>_condense\<close>; an empty root becomes an empty leaf).
\<close>

datatype rnode = Leaf "rbushbox list" | Inner "rnode list"

fun items_of :: "rnode \<Rightarrow> rbushbox list" where
  "items_of (Leaf bs) = bs"
| "items_of (Inner ns) = concat (map items_of ns)"

definition node_contains :: "rnode \<Rightarrow> rbushbox \<Rightarrow> bool" where
  "node_contains n q =
     (list_ex (\<lambda>a. minX a \<le> minX q) (items_of n) \<and> list_ex (\<lambda>a. minY a \<le> minY q) (items_of n) \<and>
      list_ex (\<lambda>a. maxX q \<le> maxX a) (items_of n) \<and> list_ex (\<lambda>a. maxY q \<le> maxY a) (items_of n))"

fun splice_first :: "('a \<Rightarrow> bool) \<Rightarrow> 'a list \<Rightarrow> 'a list" where
  "splice_first p [] = []"
| "splice_first p (b # t) = (if p b then t else b # splice_first p t)"

fun no_children :: "rnode \<Rightarrow> bool" where
  "no_children (Leaf bs) = (bs = [])"
| "no_children (Inner ns) = (ns = [])"

fun remove_node :: "rbushbox \<Rightarrow> (rbushbox \<Rightarrow> rbushbox \<Rightarrow> bool) \<Rightarrow> rnode \<Rightarrow> rnode option"
  and remove_nodes :: "rbushbox \<Rightarrow> (rbushbox \<Rightarrow> rbushbox \<Rightarrow> bool) \<Rightarrow> rnode list \<Rightarrow> rnode list option" where
  "remove_node item equalsFn (Leaf bs) =
     (if list_ex (equalsFn item) bs then Some (Leaf (splice_first (equalsFn item) bs)) else None)"
| "remove_node item equalsFn (Inner ns) =
     (if node_contains (Inner ns) item then map_option Inner (remove_nodes item equalsFn ns) else None)"
| "remove_nodes item equalsFn [] = None"
| "remove_nodes item equalsFn (n # ns) =
     (case remove_node item equalsFn n of
        Some n' \<Rightarrow> Some (if no_children n' then ns else n' # ns)
      | None \<Rightarrow> map_option (Cons n) (remove_nodes item equalsFn ns))"

definition tree_remove :: "rbushbox \<Rightarrow> (rbushbox \<Rightarrow> rbushbox \<Rightarrow> bool) \<Rightarrow> rnode \<Rightarrow> rnode" where
  "tree_remove item equalsFn tr =
     (case remove_node item equalsFn tr of
        None \<Rightarrow> tr
      | Some r \<Rightarrow> if no_children r then Leaf [] else r)"

subsection \<open>The layer's state\<close>

text \<open>
  An entry of \<open>_icons\<close>: the shared image, its load state and the queued draw requests.
  \<open>_icons\<close> and \<open>_colorMap\<close> are read as dictionaries of the keys the layer has written:
  the names every JavaScript object inherits (\<open>constructor\<close>, \<open>toString\<close> and the like)
  are not icon URLs here.
\<close>

record icon_entry =
  isLoaded :: bool
  icon_image :: image
  elements :: "(marker_ref \<times> real \<times> real) list"
  hasErrored :: bool

text \<open>
  One call of \<open>_drawImage\<close> as the canvas sees it: the translation to the marker's screen
  point, the halo (stroke colour and radius) when \<open>addBackground\<close> is set, the image with
  its destination rectangle, and the indicator badges (colour, centre, radius).
\<close>

record draw =
  d_marker :: marker_ref
  d_at :: point
  d_halo :: "(string \<times> real) option"
  d_image :: image
  d_rect :: "real \<times> real \<times> real \<times> real"
  d_badges :: "(string \<times> real \<times> real \<times> real) list"

datatype diagnostic = NotAMarker marker_ref | ImageNotLoaded string

text \<open>
  The errors the layer throws, by their message: "One or more icon options properties are
  undefined", "The icon or its url are undefined", "Marker icon (or its) options are
  undefined", and the \<open>TypeError\<close> of reading a property of \<open>undefined\<close>.
\<close>

datatype error =
    IconPropertiesUndefined
  | IconUrlUndefined
  | IconOptionsUndefined
  | TypeError

text \<open>
  \<open>canvas\<close> lists the calls of \<open>_drawImage\<close> since the last \<open>clearRect\<close>, what the
  layer has asked the canvas to paint; \<open>loads\<close> lists the image loads started
  (\<open>new Image()\<close> with its \<open>src\<close> set); \<open>console\<close> lists the calls of \<open>console.error\<close>.
\<close>

record state =
  lmap :: "lmap option"
  addBackground :: bool
  canvas :: "draw list"
  layers :: "(nat \<times> marker_ref) list"
  markersTree :: rbush
  positionsTree :: rbush
  icons :: "string \<rightharpoonup> icon_entry"
  colorMap :: "string \<rightharpoonup> string"
  heap :: "marker_ref \<Rightarrow> marker_obj"
  loads :: "string list"
  console :: "diagnostic list"

definition init :: "bool \<Rightarrow> (marker_ref \<Rightarrow> marker_obj) \<Rightarrow> state" where
  "init bg h = \<lparr> lmap = None, addBackground = bg, canvas = [], layers = [],
     markersTree = [], positionsTree = [], icons = Map.empty, colorMap = Map.empty,
     heap = h, loads = [], console = [] \<rparr>"

subsection \<open>The halo colour\<close>

text \<open>
  \<open>_generateDynamicHexcode\<close>. \<open>hash << 5\<close> takes its operand to a signed 32-bit integer
  and shifts it there; the subtraction and the addition are on doubles, exact at this
  size. \<open>(hash >> (i * 8)) & 0xff\<close> reads a byte of the 32-bit value. The characters of a
  \<open>string\<close> are 8-bit here and UTF-16 code units in the source: \<open>of_char\<close> is
  \<open>charCodeAt(0)\<close> for URLs in Latin-1.
\<close>

definition toInt32 :: "int \<Rightarrow> int" where
  "toInt32 x = (x + 2 ^ 31) mod 2 ^ 32 - 2 ^ 31"

definition hash_char :: "int \<Rightarrow> char \<Rightarrow> int" where
  "hash_char hash c = int (of_char c) + (toInt32 (toInt32 hash * 2 ^ 5) - hash)"

definition hex_digit :: "nat \<Rightarrow> char" where
  "hex_digit d = (''0123456789abcdef'') ! (d mod 16)"

definition hex2 :: "nat \<Rightarrow> string" where
  "hex2 v = (if v < 16 then [CHR ''0'', hex_digit v] else [hex_digit (v div 16), hex_digit v])"

definition colour_byte :: "int \<Rightarrow> nat \<Rightarrow> nat" where
  "colour_byte hash i = nat ((toInt32 hash div 2 ^ (i * 8)) mod 256)"

definition generateDynamicHexcode :: "string \<Rightarrow> string" where
  "generateDynamicHexcode strValue =
     (let hash = foldl hash_char 0 strValue
      in ''#'' @ hex2 (colour_byte hash 0) @ hex2 (colour_byte hash 1) @ hex2 (colour_byte hash 2))"

subsection \<open>Drawing\<close>

text \<open>
  \<open>_drawImage\<close>. The colour memo is read with \<open>if (!color)\<close>, which also takes the empty
  string for a miss. Badge \<open>idx\<close> sits in row \<open>idx div 5\<close> and column \<open>idx mod 5\<close>.
\<close>

definition badge :: "point \<Rightarrow> real \<Rightarrow> nat \<times> string \<Rightarrow> string \<times> real \<times> real \<times> real" where
  "badge sz radius ic =
     (case ic of (idx, color) \<Rightarrow>
        (color,
         fst sz / 2 + real (idx div 5) * (radius * 2 + 1),
         - snd sz / 2 + (real (idx mod 5) * (radius * 2 + 1)) / 2,
         radius))"

definition memo_colour :: "state \<Rightarrow> string \<Rightarrow> string option" where
  "memo_colour s imgSrc =
     (case colorMap s imgSrc of
        None \<Rightarrow> None
      | Some c \<Rightarrow> if c = [] then None else Some c)"

definition drawImage :: "marker_ref \<Rightarrow> point \<Rightarrow> state \<Rightarrow> state \<times> error option" where
  "drawImage m xy s =
     (case icon (options (heap s m)) of
        None \<Rightarrow> (s, Some IconOptionsUndefined)
      | Some iconOptions \<Rightarrow>
          (case (iconAnchor iconOptions, iconSize iconOptions, marker_image (heap s m)) of
             (Some anchor, Some sz, Some img) \<Rightarrow>
               let imgSrc = src img;
                   color = (case memo_colour s imgSrc of
                              None \<Rightarrow> generateDynamicHexcode imgSrc
                            | Some c \<Rightarrow> c);
                   s1 = (if addBackground s \<and> memo_colour s imgSrc = None
                         then s\<lparr>colorMap := (colorMap s)(imgSrc \<mapsto> color)\<rparr>
                         else s);
                   radius = real_of_int \<lfloor>fst sz / 6 + 1\<rfloor>;
                   d = \<lparr> d_marker = m, d_at = xy,
                         d_halo = (if addBackground s then Some (color, fst sz / 1.5) else None),
                         d_image = img,
                         d_rect = (- fst anchor, - snd anchor, fst sz, snd sz),
                         d_badges = (case indicators (heap s m) of
                                       None \<Rightarrow> []
                                     | Some cs \<Rightarrow> map (badge sz radius) (enumerate 0 cs)) \<rparr>
               in (s1\<lparr>canvas := canvas s1 @ [d]\<rparr>, None)
           | _ \<Rightarrow> (s, Some IconPropertiesUndefined)))"

text \<open>
  \<open>_drawMarker\<close>: the three branches of the source, in its order. The last one creates
  the image, starts its load and installs the two handlers below.
\<close>

definition set_image :: "marker_ref \<Rightarrow> image \<Rightarrow> state \<Rightarrow> state" where
  "set_image m img s = s\<lparr>heap := (heap s)(m := (heap s m)\<lparr>marker_image := Some img\<rparr>)\<rparr>"

definition drawMarker :: "marker_ref \<Rightarrow> point \<Rightarrow> state \<Rightarrow> state \<times> error option" where
  "drawMarker m xy s =
     (case (case icon (options (heap s m)) of None \<Rightarrow> None | Some io \<Rightarrow> iconUrl io) of
        None \<Rightarrow> (s, Some IconUrlUndefined)
      | Some url \<Rightarrow>
          (case marker_image (heap s m) of
             Some img \<Rightarrow>
               (case icons s url of
                  None \<Rightarrow> drawImage m xy s
                | Some e \<Rightarrow> if hasErrored e then (s, None) else drawImage m xy s)
           | None \<Rightarrow>
               (case icons s url of
                  Some e \<Rightarrow>
                    if hasErrored e then (s, None)
                    else
                      let s1 = set_image m (icon_image e) s
                      in if isLoaded e then drawImage m xy s1
                         else (s1\<lparr>icons := (icons s1)(url \<mapsto>
                                 e\<lparr>elements := elements e @ [(m, fst xy, snd xy)]\<rparr>)\<rparr>, None)
                | None \<Rightarrow>
                    let img = HTMLImageElement url;
                        s1 = set_image m img (s\<lparr>loads := loads s @ [url]\<rparr>)
                    in (s1\<lparr>icons := (icons s1)(url \<mapsto>
                          \<lparr> isLoaded = False, icon_image = img,
                            elements = [(m, fst xy, snd xy)], hasErrored = False \<rparr>)\<rparr>, None))))"

text \<open>
  \<open>image.onload\<close> and \<open>image.onerror\<close> of the image created for \<open>iconUrl\<close>. The loop of
  \<open>onload\<close> takes only the marker of each queued element and asks the map for its
  position again.
\<close>

fun flush :: "(marker_ref \<times> real \<times> real) list \<Rightarrow> state \<Rightarrow> state \<times> error option" where
  "flush [] s = (s, None)"
| "flush ((m, x, y) # es) s =
     (case lmap s of
        None \<Rightarrow> (s, Some TypeError)
      | Some mp \<Rightarrow>
          (case drawImage m (latLngToContainerPoint mp (latLng (heap s m))) s of
             (s1, Some e) \<Rightarrow> (s1, Some e)
           | (s1, None) \<Rightarrow> flush es s1))"

definition image_onload :: "string \<Rightarrow> state \<Rightarrow> state \<times> error option" where
  "image_onload url s =
     (case icons s url of
        None \<Rightarrow> (s, Some TypeError)
      | Some e \<Rightarrow>
          flush (elements e) (s\<lparr>icons := (icons s)(url \<mapsto> e\<lparr>isLoaded := True\<rparr>)\<rparr>))"

definition image_onerror :: "string \<Rightarrow> state \<Rightarrow> state \<times> error option" where
  "image_onerror url s =
     (case icons s url of
        None \<Rightarrow> (s, Some TypeError)
      | Some e \<Rightarrow>
          (s\<lparr>icons := (icons s)(url \<mapsto> e\<lparr>hasErrored := True\<rparr>),
              console := console s @ [ImageNotLoaded (src (HTMLImageElement url))]\<rparr>, None))"

subsection \<open>redraw\<close>

definition markerBox_of :: "marker_ref \<Rightarrow> point \<Rightarrow> point \<Rightarrow> point \<Rightarrow> rbushbox" where
  "markerBox_of m xy anchor sz =
     \<lparr> minX = fst xy - fst anchor, minY = snd xy - snd anchor,
       maxX = fst xy + fst sz - fst anchor, maxY = snd xy + snd sz - snd anchor,
       marker = m \<rparr>"

definition positionBox_of :: "marker_ref \<Rightarrow> latlng \<Rightarrow> rbushbox" where
  "positionBox_of m p =
     \<lparr> minX = lng p, minY = lat p, maxX = lng p, maxY = lat p, marker = m \<rparr>"

definition mapBoundsBox :: "llbounds \<Rightarrow> bbox" where
  "mapBoundsBox b = \<lparr> minX = west b, minY = south b, maxX = east b, maxY = north b \<rparr>"

text \<open>
  The loop of \<open>redraw\<close> over the search result; \<open>acc\<close> is the local array \<open>markers\<close>.
  \<open>redraw\<close> clears the canvas when asked to; the canvas and its context exist from
  \<open>onAdd\<close> on, and without a map \<open>redraw\<close> returns before it would touch them.
\<close>

fun redraw_loop ::
  "lmap \<Rightarrow> rbushbox list \<Rightarrow> rbushbox list \<Rightarrow> state \<Rightarrow> rbushbox list \<times> state \<times> error option" where
  "redraw_loop mp [] acc s = (acc, s, None)"
| "redraw_loop mp (b # bs) acc s =
     (let m = marker b;
          xy = latLngToContainerPoint mp (latLng (heap s m))
      in (case icon (options (heap s m)) of
            None \<Rightarrow> (acc, s, Some IconOptionsUndefined)
          | Some iconOptions \<Rightarrow>
              (case (iconSize iconOptions, iconAnchor iconOptions) of
                 (Some sz, Some anchor) \<Rightarrow>
                   (case drawMarker m xy s of
                      (s1, Some e) \<Rightarrow> (acc @ [markerBox_of m xy anchor sz], s1, Some e)
                    | (s1, None) \<Rightarrow> redraw_loop mp bs (acc @ [markerBox_of m xy anchor sz]) s1)
               | _ \<Rightarrow> (acc, s, Some IconPropertiesUndefined))))"

definition redraw :: "bool \<Rightarrow> state \<Rightarrow> state \<times> error option" where
  "redraw clear s =
     (case lmap s of
        None \<Rightarrow> (s, None)
      | Some mp \<Rightarrow>
          let s0 = (if clear then s\<lparr>canvas := []\<rparr> else s)
          in (case redraw_loop mp (search (mapBoundsBox (getMapBounds mp)) (positionsTree s0)) [] s0 of
                (markers, s1, Some e) \<Rightarrow> (s1, Some e)
              | (markers, s1, None) \<Rightarrow> (s1\<lparr>markersTree := load markers []\<rparr>, None)))"

subsection \<open>Adding and removing markers\<close>

text \<open>
  \<open>addMarker\<close> returns the two boxes and the visibility, or three \<open>null\<close>s. Its
  assignments \<open>marker._map = this._map\<close> and \<open>L.Util.stamp(marker)\<close> have no counterpart:
  the layer never reads the first, and the reference already stands for the id.
\<close>

record add_result =
  markerBox :: "rbushbox option"
  positionBox :: "rbushbox option"
  isVisible :: "bool option"

definition rejected :: add_result where
  "rejected = \<lparr> markerBox = None, positionBox = None, isVisible = None \<rparr>"

definition addMarker :: "marker_ref \<Rightarrow> state \<Rightarrow> state \<times> (error + add_result)" where
  "addMarker m s =
     (case (if pane (options (heap s m)) \<noteq> ''markerPane'' then None
            else icon (options (heap s m))) of
        None \<Rightarrow> (s\<lparr>console := console s @ [NotAMarker m]\<rparr>, Inr rejected)
      | Some iconOptions \<Rightarrow>
          (case lmap s of
             None \<Rightarrow> (s, Inr rejected)
           | Some mp \<Rightarrow>
               let p = latLng (heap s m);
                   visible = contains (getMapBounds mp) p;
                   xy = latLngToContainerPoint mp p
               in (case (iconAnchor iconOptions, iconSize iconOptions) of
                     (Some anchor, Some sz) \<Rightarrow>
                       (case (if visible then drawMarker m xy s else (s, None)) of
                          (s1, Some e) \<Rightarrow> (s1, Inl e)
                        | (s1, None) \<Rightarrow>
                            (s1\<lparr>layers := AList.update m m (layers s1)\<rparr>,
                             Inr \<lparr> markerBox = Some (markerBox_of m xy anchor sz),
                                   positionBox = Some (positionBox_of m p),
                                   isVisible = Some visible \<rparr>))
                   | _ \<Rightarrow> (s, Inl IconPropertiesUndefined))))"

text \<open>The loop of \<open>addMarkers\<close>; the two accumulators are \<open>markerBoxes\<close> and \<open>positionBoxes\<close>.\<close>

fun addMarkers_loop ::
  "marker_ref list \<Rightarrow> rbushbox list \<Rightarrow> rbushbox list \<Rightarrow> state
     \<Rightarrow> rbushbox list \<times> rbushbox list \<times> state \<times> error option" where
  "addMarkers_loop [] markerBoxes positionBoxes s = (markerBoxes, positionBoxes, s, None)"
| "addMarkers_loop (m # ms) markerBoxes positionBoxes s =
     (case addMarker m s of
        (s1, Inl e) \<Rightarrow> (markerBoxes, positionBoxes, s1, Some e)
      | (s1, Inr r) \<Rightarrow>
          addMarkers_loop ms
            (case (markerBox r, isVisible r) of
               (Some b, Some True) \<Rightarrow> markerBoxes @ [b]
             | _ \<Rightarrow> markerBoxes)
            (case positionBox r of Some b \<Rightarrow> positionBoxes @ [b] | None \<Rightarrow> positionBoxes)
            s1)"

definition addMarkers :: "marker_ref list \<Rightarrow> state \<Rightarrow> state \<times> error option" where
  "addMarkers ms s =
     (case addMarkers_loop ms [] [] s of
        (markerBoxes, positionBoxes, s1, Some e) \<Rightarrow> (s1, Some e)
      | (markerBoxes, positionBoxes, s1, None) \<Rightarrow>
          (s1\<lparr>markersTree := load markerBoxes (markersTree s1),
               positionsTree := load positionBoxes (positionsTree s1)\<rparr>, None))"

text \<open>The equality function both removals pass to \<open>remove\<close>.\<close>

definition same_leaflet_id :: "rbushbox \<Rightarrow> rbushbox \<Rightarrow> bool" where
  "same_leaflet_id a b = (marker a = marker b)"

definition removeMarker :: "marker_ref \<Rightarrow> state \<Rightarrow> state \<times> error option" where
  "removeMarker m s =
     (case lmap s of
        None \<Rightarrow> (s, None)
      | Some mp \<Rightarrow>
          let p = latLng (heap s m);
              visible = contains (getMapBounds mp) p;
              s1 = s\<lparr>positionsTree := remove (positionBox_of m p) same_leaflet_id (positionsTree s)\<rparr>
          in if visible then redraw True s1 else (s1, None))"

fun removeMarkers_loop :: "lmap \<Rightarrow> marker_ref list \<Rightarrow> bool \<Rightarrow> state \<Rightarrow> bool \<times> state" where
  "removeMarkers_loop mp [] hasChanged s = (hasChanged, s)"
| "removeMarkers_loop mp (m # ms) hasChanged s =
     (let p = latLng (heap s m);
          visible = contains (getMapBounds mp) p;
          s1 = s\<lparr>positionsTree := remove (positionBox_of m p) same_leaflet_id (positionsTree s)\<rparr>
      in removeMarkers_loop mp ms (if visible then True else hasChanged) s1)"

definition removeMarkers :: "marker_ref list \<Rightarrow> state \<Rightarrow> state \<times> error option" where
  "removeMarkers ms s =
     (case lmap s of
        None \<Rightarrow> (s, None)
      | Some mp \<Rightarrow>
          (case removeMarkers_loop mp ms False s of
             (hasChanged, s1) \<Rightarrow> if hasChanged then redraw True s1 else (s1, None)))"

definition clear :: "state \<Rightarrow> state \<times> error option" where
  "clear s = redraw True (s\<lparr>positionsTree := [], markersTree := [], layers := []\<rparr>)"

subsection \<open>Queries\<close>

definition getAllMarkers :: "state \<Rightarrow> (nat \<times> marker_ref) list" where
  "getAllMarkers s = layers s"

text \<open>
  \<open>getBounds\<close>: a \<open>L.LatLngBounds\<close> without corners is \<open>None\<close>; \<open>extend\<close> grows it to
  hold one more position.
\<close>

definition extend_bounds :: "llbounds option \<Rightarrow> latlng \<Rightarrow> llbounds option" where
  "extend_bounds b p =
     (case b of
        None \<Rightarrow> Some \<lparr> south = lat p, west = lng p, north = lat p, east = lng p \<rparr>
      | Some r \<Rightarrow>
          Some \<lparr> south = min (lat p) (south r), west = min (lng p) (west r),
                 north = max (lat p) (north r), east = max (lng p) (east r) \<rparr>)"

definition getBounds :: "state \<Rightarrow> llbounds option" where
  "getBounds s =
     (let bounds = (case map_of (layers s) 0 of
                      None \<Rightarrow> None
                    | Some m0 \<Rightarrow> extend_bounds (extend_bounds None (latLng (heap s m0))) (latLng (heap s m0)))
      in foldl (\<lambda>b (layerId, m). extend_bounds b (latLng (heap s m))) bounds (layers s))"

subsection \<open>Draw requests\<close>

text \<open>
  A marker is \<open>drawable\<close> when \<open>_drawImage\<close> finds all it needs: icon options with anchor
  and size, and an image. A marker is \<open>fresh\<close> for a URL when its icon is configured with
  that URL, an anchor and a size, and it holds no image yet: the state of a marker that
  has not been through \<open>_drawMarker\<close>. \<open>request_draws\<close> is a run of \<open>_drawMarker\<close> calls,
  one per marker and screen position.
\<close>

definition drawable :: "state \<Rightarrow> marker_ref \<Rightarrow> bool" where
  "drawable s m =
     (case icon (options (heap s m)) of
        None \<Rightarrow> False
      | Some io \<Rightarrow> iconAnchor io \<noteq> None \<and> iconSize io \<noteq> None \<and> marker_image (heap s m) \<noteq> None)"

definition fresh :: "state \<Rightarrow> string \<Rightarrow> marker_ref \<Rightarrow> bool" where
  "fresh s url m =
     (marker_image (heap s m) = None \<and>
      (case icon (options (heap s m)) of
         None \<Rightarrow> False
       | Some io \<Rightarrow> iconUrl io = Some url \<and> iconAnchor io \<noteq> None \<and> iconSize io \<noteq> None))"

definition request_draws :: "(marker_ref \<times> point) list \<Rightarrow> state \<Rightarrow> state" where
  "request_draws reqs s = foldl (\<lambda>s' (m, xy). fst (drawMarker m xy s')) s reqs"

text \<open>
  What the canvas is to receive for a marker drawn with the image \<open>img\<close> on the map
  \<open>mp\<close>: the translation to the marker's screen point, the halo in the colour the memo
  holds for the source of the image (or, on a miss, the colour computed from it), the
  image in the rectangle given by the anchor and the size of the marker's icon, and one
  badge per indicator. There is no such draw for an icon without anchor or size.
\<close>

definition halo_colour :: "state \<Rightarrow> string \<Rightarrow> string" where
  "halo_colour s imgSrc =
     (case memo_colour s imgSrc of None \<Rightarrow> generateDynamicHexcode imgSrc | Some c \<Rightarrow> c)"

definition icon_draw :: "state \<Rightarrow> lmap \<Rightarrow> image \<Rightarrow> marker_ref \<Rightarrow> draw option" where
  "icon_draw s mp img m =
     (case icon (options (heap s m)) of
        None \<Rightarrow> None
      | Some io \<Rightarrow>
          (case (iconAnchor io, iconSize io) of
             (Some anchor, Some sz) \<Rightarrow>
               Some \<lparr> d_marker = m,
                      d_at = latLngToContainerPoint mp (latLng (heap s m)),
                      d_halo = (if addBackground s then Some (halo_colour s (src img), fst sz / 1.5)
                                else None),
                      d_image = img,
                      d_rect = (- fst anchor, - snd anchor, fst sz, snd sz),
                      d_badges = (case indicators (heap s m) of
                                    None \<Rightarrow> []
                                  | Some cs \<Rightarrow>
                                      map (badge sz (real_of_int \<lfloor>fst sz / 6 + 1\<rfloor>)) (enumerate 0 cs)) \<rparr>
           | _ \<Rightarrow> None))"

subsection \<open>The screen index\<close>

text \<open>
  \<open>screen_box\<close> is the box \<open>redraw\<close> computes for a marker: its screen point, moved by
  the anchor and extended by the icon size. A draw of a marker has been requested and
  not lost when the marker is on the canvas, or waits in the queue of its pending icon,
  or its icon has failed to load (the request was dropped on purpose).
\<close>

definition screen_box :: "lmap \<Rightarrow> state \<Rightarrow> marker_ref \<Rightarrow> rbushbox option" where
  "screen_box mp s m =
     (case icon (options (heap s m)) of
        None \<Rightarrow> None
      | Some io \<Rightarrow>
          (case (iconSize io, iconAnchor io) of
             (Some sz, Some anchor) \<Rightarrow>
               Some (markerBox_of m (latLngToContainerPoint mp (latLng (heap s m))) anchor sz)
           | _ \<Rightarrow> None))"

definition draw_requested :: "state \<Rightarrow> marker_ref \<Rightarrow> bool" where
  "draw_requested s m =
     (m \<in> d_marker ` set (canvas s) \<or>
      (case icon (options (heap s m)) of
         None \<Rightarrow> False
       | Some io \<Rightarrow>
           (case iconUrl io of
              None \<Rightarrow> False
            | Some url \<Rightarrow>
                (case icons s url of
                   None \<Rightarrow> False
                 | Some e \<Rightarrow> hasErrored e \<or> (\<not> isLoaded e \<and> m \<in> fst ` set (elements e))))))"

subsection \<open>The layer over time\<close>

text \<open>
  What happens to a layer: the calls of its public methods, and the events of its
  environment. \<open>onAdd\<close> stores the map and creates the canvas (\<open>_initCanvas\<close>); when the
  layer is taken off the map, Leaflet calls \<open>onRemove\<close> and clears \<open>_map\<close>. The map fires
  \<open>moveend\<close> or \<open>resize\<close> after its view changed, which runs \<open>_reset\<close> and so
  \<open>redraw(true)\<close>, while the layer is attached. The browser fires
  \<open>load\<close> or \<open>error\<close> on an image once, after its load was started and before either has
  fired: that is the state \<open>pending\<close> of the cache entry. An exception ends the call
  that raised it and leaves the state as it was at that moment.
\<close>

definition pending :: "state \<Rightarrow> string \<Rightarrow> bool" where
  "pending s url = (case icons s url of None \<Rightarrow> False | Some e \<Rightarrow> \<not> isLoaded e \<and> \<not> hasErrored e)"

definition onAdd :: "lmap \<Rightarrow> state \<Rightarrow> state" where
  "onAdd mp s = s\<lparr>lmap := Some mp, canvas := []\<rparr>"

definition reset :: "state \<Rightarrow> state \<times> error option" where
  "reset s = redraw True s"

datatype event =
    OnAdd lmap
  | OnRemove
  | MoveEnd lmap
  | AddMarker marker_ref
  | AddMarkers "marker_ref list"
  | RemoveMarker marker_ref
  | RemoveMarkers "marker_ref list"
  | Redraw bool
  | Clear
  | ImageLoad string
  | ImageError string

fun step :: "event \<Rightarrow> state \<Rightarrow> state" where
  "step (OnAdd mp) s = onAdd mp s"
| "step OnRemove s = s\<lparr>lmap := None\<rparr>"
| "step (MoveEnd mp) s = (if lmap s = None then s else fst (reset (s\<lparr>lmap := Some mp\<rparr>)))"
| "step (AddMarker m) s = fst (addMarker m s)"
| "step (AddMarkers ms) s = fst (addMarkers ms s)"
| "step (RemoveMarker m) s = fst (removeMarker m s)"
| "step (RemoveMarkers ms) s = fst (removeMarkers ms s)"
| "step (Redraw c) s = fst (redraw c s)"
| "step Clear s = fst (clear s)"
| "step (ImageLoad url) s = (if pending s url then fst (image_onload url s) else s)"
| "step (ImageError url) s = (if pending s url then fst (image_onerror url s) else s)"

definition run :: "event list \<Rightarrow> state \<Rightarrow> state" where
  "run evs s = foldl (\<lambda>s' e. step e s') s evs"

subsection \<open>Batches of markers\<close>

text \<open>
  A marker is valid for \<open>addMarker\<close> when it sits in the marker pane and its icon has a
  URL, an anchor and a size. A \<open>batch_event\<close> is a call of \<open>addMarkers\<close>, \<open>removeMarker\<close>
  or \<open>removeMarkers\<close>, or something that happens between such calls: a redraw, a move of
  the map, the load or the failure of an image. \<open>added\<close> and \<open>removed\<close> list the markers
  a call names.
\<close>

definition valid_marker :: "state \<Rightarrow> marker_ref \<Rightarrow> bool" where
  "valid_marker s m =
     (pane (options (heap s m)) = ''markerPane'' \<and>
      (case icon (options (heap s m)) of
         None \<Rightarrow> False
       | Some io \<Rightarrow> iconUrl io \<noteq> None \<and> iconAnchor io \<noteq> None \<and> iconSize io \<noteq> None))"

fun batch_event :: "event \<Rightarrow> bool" where
  "batch_event (AddMarkers ms) = True"
| "batch_event (RemoveMarker m) = True"
| "batch_event (RemoveMarkers ms) = True"
| "batch_event (MoveEnd mp) = True"
| "batch_event (Redraw c) = True"
| "batch_event (ImageLoad url) = True"
| "batch_event (ImageError url) = True"
| "batch_event _ = False"

fun added :: "event \<Rightarrow> marker_ref list" where
  "added (AddMarkers ms) = ms"
| "added _ = []"

fun removed :: "event \<Rightarrow> marker_ref list" where
  "removed (RemoveMarker m) = [m]"
| "removed (RemoveMarkers ms) = ms"
| "removed _ = []"

text \<open>
  What the specification expects the position index to hold after a sequence of such
  calls: the markers added, in their order, without those removed since (one occurrence
  per removal).
\<close>

fun expected_index_step :: "marker_ref list \<Rightarrow> event \<Rightarrow> marker_ref list" where
  "expected_index_step l (AddMarkers ms) = l @ ms"
| "expected_index_step l (RemoveMarker m) = remove1 m l"
| "expected_index_step l (RemoveMarkers ms) = foldl (\<lambda>l' m. remove1 m l') l ms"
| "expected_index_step l _ = l"

definition expected_index :: "event list \<Rightarrow> marker_ref list" where
  "expected_index evs = foldl expected_index_step [] evs"

subsection \<open>Example states\<close>

definition view0 :: lmap where
  "view0 = \<lparr> getMapBounds = \<lparr> south = 0, west = 0, north = 10, east = 10 \<rparr>,
             latLngToContainerPoint = (\<lambda>p. (lng p * 10, 100 - lat p * 10)) \<rparr>"

definition view1 :: lmap where
  "view1 = \<lparr> getMapBounds = \<lparr> south = 0, west = 2, north = 10, east = 12 \<rparr>,
             latLngToContainerPoint = (\<lambda>p. (lng p * 10 - 20, 100 - lat p * 10)) \<rparr>"

definition icon_a :: icon_options where
  "icon_a = \<lparr> iconUrl = Some ''a.png'', iconSize = Some (32, 32), iconAnchor = Some (16, 16) \<rparr>"

definition marker_at :: "real \<Rightarrow> real \<Rightarrow> icon_options option \<Rightarrow> marker_obj" where
  "marker_at la lo ic =
     \<lparr> latLng = \<lparr> lat = la, lng = lo \<rparr>, options = \<lparr> pane = ''markerPane'', icon = ic \<rparr>,
       marker_image = None, indicators = None \<rparr>"

text \<open>
  Markers 2 and 3 lie inside the viewport of \<open>view0\<close>, marker 4 (like every other
  reference) outside; marker 5 has no icon and marker 6 an icon without a size. In \<open>ex_added\<close>
  the markers 2, 3 and 4 have been added in one batch.
\<close>

definition heap0 :: "marker_ref \<Rightarrow> marker_obj" where
  "heap0 = (\<lambda>k. marker_at 50 50 (Some icon_a))
     (2 := marker_at 5 5 (Some icon_a),
      3 := marker_at 4 6 (Some icon_a),
      5 := marker_at 5 5 None,
      6 := marker_at 5 5 (Some (icon_a\<lparr>iconSize := None\<rparr>)))"

definition ex_attached :: state where
  "ex_attached = onAdd view0 (init False heap0)"

definition ex_added :: state where
  "ex_added = fst (addMarkers [2, 3, 4] ex_attached)"

text \<open>In \<open>ex_queued\<close> the markers 2 and 3 wait for the image of \<open>a.png\<close>.\<close>

definition ex_queued :: state where
  "ex_queued = fst (addMarkers [2, 3] ex_attached)"

text \<open>In \<open>ex_loaded\<close> the image of \<open>a.png\<close> has arrived for the markers of \<open>ex_added\<close>.\<close>

definition ex_loaded :: state where
  "ex_loaded = fst (image_onload ''a.png'' ex_added)"

text \<open>
  \<open>L.Marker.setLatLng\<close>, which the application may call on a marker it holds: the marker
  gets a new position, and the layer is not told. In \<open>ex_row\<close> ten markers, 12 to 21, lie
  in a row outside the viewport and have been added in one batch; in \<open>ex_moved\<close> the
  application has then moved marker 15 away from all of them.
\<close>

definition setLatLng :: "marker_ref \<Rightarrow> latlng \<Rightarrow> state \<Rightarrow> state" where
  "setLatLng m p s = s\<lparr>heap := (heap s)(m := (heap s m)\<lparr>latLng := p\<rparr>)\<rparr>"

definition heap_row :: "marker_ref \<Rightarrow> marker_obj" where
  "heap_row = (\<lambda>k. marker_at (real k) (real k) (Some icon_a))"

definition ex_row :: state where
  "ex_row = fst (addMarkers [12, 13, 14, 15, 16, 17, 18, 19, 20, 21] (onAdd view0 (init False heap_row)))"

definition ex_moved :: state where
  "ex_moved = setLatLng 15 \<lparr>lat = 80, lng = 80\<rparr> ex_row"

text \<open>
  The tree the bulk load of \<open>rbush\<close> builds for the ten items of \<open>ex_row\<close>: more than the
  nine a node takes, so two leaves of five under an inner root.
\<close>

definition ex_row_tree :: rnode where
  "ex_row_tree =
     Inner [Leaf [positionBox_of 12 \<lparr>lat = 12, lng = 12\<rparr>, positionBox_of 13 \<lparr>lat = 13, lng = 13\<rparr>,
                  positionBox_of 14 \<lparr>lat = 14, lng = 14\<rparr>, positionBox_of 15 \<lparr>lat = 15, lng = 15\<rparr>,
                  positionBox_of 16 \<lparr>lat = 16, lng = 16\<rparr>],
            Leaf [positionBox_of 17 \<lparr>lat = 17, lng = 17\<rparr>, positionBox_of 18 \<lparr>lat = 18, lng = 18\<rparr>,
                  positionBox_of 19 \<lparr>lat = 19, lng = 19\<rparr>, positionBox_of 20 \<lparr>lat = 20, lng = 20\<rparr>,
                  positionBox_of 21 \<lparr>lat = 21, lng = 21\<rparr>]]"


subsection \<open>Invariants\<close>

text \<open>
  The colour memo holds, for a source, only the colour computed from it, and every halo
  on the canvas has the colour computed from the source of the image drawn over it.
\<close>

definition halo_ok :: "state \<Rightarrow> bool" where
  "halo_ok s =
     ((\<forall>k c. colorMap s k = Some c \<longrightarrow> c = generateDynamicHexcode k) \<and>
      (\<forall>d \<in> set (canvas s). \<forall>c r. d_halo d = Some (c, r) \<longrightarrow> c = generateDynamicHexcode (src (d_image d))))"

text \<open>
  What holds of the icon cache in every state a layer can reach. A URL whose load was
  started has its cache entry. The markers queued for a URL have that URL in their icon.
  The console holds one diagnostic for each URL whose load failed, and none for the
  others. \<open>after_failure s1 u\<close> describes the states that follow a state \<open>s1\<close> in which the
  load of \<open>u\<close> has failed: the failure stands, and the canvas has no draw of a marker of
  \<open>u\<close> that was not already on the canvas of \<open>s1\<close>.
\<close>

definition loads_ok :: "state \<Rightarrow> bool" where
  "loads_ok s = (distinct (loads s) \<and> set (loads s) \<subseteq> dom (icons s))"

definition errored :: "state \<Rightarrow> string \<Rightarrow> bool" where
  "errored s url = (case icons s url of None \<Rightarrow> False | Some e \<Rightarrow> hasErrored e)"

definition iconUrl_of :: "state \<Rightarrow> marker_ref \<Rightarrow> string option" where
  "iconUrl_of s m = (case icon (options (heap s m)) of None \<Rightarrow> None | Some io \<Rightarrow> iconUrl io)"

definition queues_ok :: "state \<Rightarrow> bool" where
  "queues_ok s = (\<forall>u e. icons s u = Some e \<longrightarrow> (\<forall>q \<in> set (elements e). iconUrl_of s (fst q) = Some u))"

definition diagnostics_ok :: "state \<Rightarrow> bool" where
  "diagnostics_ok s = (\<forall>u. count_list (console s) (ImageNotLoaded u) = (if errored s u then 1 else 0))"

definition after_failure :: "state \<Rightarrow> string \<Rightarrow> state \<Rightarrow> bool" where
  "after_failure s1 u s =
     (queues_ok s \<and> diagnostics_ok s \<and> errored s u \<and>
      (\<forall>k. options (heap s k) = options (heap s1 k)) \<and>
      (\<forall>d \<in> set (canvas s). iconUrl_of s1 (d_marker d) = Some u \<longrightarrow> d \<in> set (canvas s1)))"

section \<open>Frame properties\<close>

lemmas fixture_defs = ex_attached_def onAdd_def init_def heap0_def marker_at_def icon_a_def view0_def view1_def
lemmas engine_defs = addMarkers_def addMarker_def contains_def drawMarker_def drawImage_def set_image_def
  load_def search_def intersects_def mapBoundsBox_def positionBox_of_def markerBox_of_def
  same_leaflet_id_def contains_bbox_def removeMarker_def removeMarkers_def redraw_def image_onload_def
  image_onerror_def memo_colour_def rejected_def Let_def


text \<open>
  What drawing and redrawing leave alone: the map, the option, the table of registered
  markers, the position index, the console, and of every marker object all but its image.
\<close>


lemma drawImage_frame:
  "lmap (fst (drawImage m xy s)) = lmap s"
  "addBackground (fst (drawImage m xy s)) = addBackground s"
  "layers (fst (drawImage m xy s)) = layers s"
  "markersTree (fst (drawImage m xy s)) = markersTree s"
  "positionsTree (fst (drawImage m xy s)) = positionsTree s"
  "icons (fst (drawImage m xy s)) = icons s"
  "heap (fst (drawImage m xy s)) = heap s"
  "loads (fst (drawImage m xy s)) = loads s"
  "console (fst (drawImage m xy s)) = console s"
  by (simp_all add: drawImage_def Let_def split: option.splits)

lemma drawMarker_frame:
  "lmap (fst (drawMarker m xy s)) = lmap s"
  "addBackground (fst (drawMarker m xy s)) = addBackground s"
  "layers (fst (drawMarker m xy s)) = layers s"
  "markersTree (fst (drawMarker m xy s)) = markersTree s"
  "positionsTree (fst (drawMarker m xy s)) = positionsTree s"
  "console (fst (drawMarker m xy s)) = console s"
  by (simp_all add: drawMarker_def set_image_def Let_def drawImage_frame split: option.splits)

lemma drawMarker_heap:
  "latLng (heap (fst (drawMarker m xy s)) k) = latLng (heap s k)"
  "options (heap (fst (drawMarker m xy s)) k) = options (heap s k)"
  "indicators (heap (fst (drawMarker m xy s)) k) = indicators (heap s k)"
  by (simp_all add: drawMarker_def set_image_def Let_def drawImage_frame split: option.splits)


lemma redraw_loop_frame:
  "lmap (fst (snd (redraw_loop mp bs acc s))) = lmap s \<and>
   addBackground (fst (snd (redraw_loop mp bs acc s))) = addBackground s \<and>
   layers (fst (snd (redraw_loop mp bs acc s))) = layers s \<and>
   markersTree (fst (snd (redraw_loop mp bs acc s))) = markersTree s \<and>
   positionsTree (fst (snd (redraw_loop mp bs acc s))) = positionsTree s \<and>
   console (fst (snd (redraw_loop mp bs acc s))) = console s \<and>
   (\<forall>k. latLng (heap (fst (snd (redraw_loop mp bs acc s))) k) = latLng (heap s k) \<and>
        options (heap (fst (snd (redraw_loop mp bs acc s))) k) = options (heap s k) \<and>
        indicators (heap (fst (snd (redraw_loop mp bs acc s))) k) = indicators (heap s k))"
proof (induction bs arbitrary: acc s)
  case Nil
  show ?case by simp
next
  case (Cons b bs)
  show ?case
  proof (cases "drawMarker (marker b) (latLngToContainerPoint mp (latLng (heap s (marker b)))) s")
    case (Pair s1 r)
    have fr: "lmap s1 = lmap s" "addBackground s1 = addBackground s" "layers s1 = layers s"
      "markersTree s1 = markersTree s" "positionsTree s1 = positionsTree s" "console s1 = console s"
      "\<And>k. latLng (heap s1 k) = latLng (heap s k)"
      "\<And>k. options (heap s1 k) = options (heap s k)"
      "\<And>k. indicators (heap s1 k) = indicators (heap s k)"
      using drawMarker_frame [of "marker b" "latLngToContainerPoint mp (latLng (heap s (marker b)))" s]
        drawMarker_heap [of "marker b" "latLngToContainerPoint mp (latLng (heap s (marker b)))" s]
      by (simp_all add: Pair)
    show ?thesis
      using Cons.IH fr by (simp add: Pair Let_def split: option.splits)
  qed
qed

lemma redraw_frame:
  "lmap (fst (redraw c s)) = lmap s"
  "addBackground (fst (redraw c s)) = addBackground s"
  "layers (fst (redraw c s)) = layers s"
  "positionsTree (fst (redraw c s)) = positionsTree s"
  "console (fst (redraw c s)) = console s"
  "latLng (heap (fst (redraw c s)) k) = latLng (heap s k)"
  "options (heap (fst (redraw c s)) k) = options (heap s k)"
  "indicators (heap (fst (redraw c s)) k) = indicators (heap s k)"
proof -
  have "lmap (fst (redraw c s)) = lmap s \<and>
  addBackground (fst (redraw c s)) = addBackground s \<and>
  layers (fst (redraw c s)) = layers s \<and>
  positionsTree (fst (redraw c s)) = positionsTree s \<and>
  console (fst (redraw c s)) = console s \<and>
  latLng (heap (fst (redraw c s)) k) = latLng (heap s k) \<and>
  options (heap (fst (redraw c s)) k) = options (heap s k) \<and>
  indicators (heap (fst (redraw c s)) k) = indicators (heap s k)"
  proof (cases "lmap s")
    case None
    then show ?thesis by (simp add: redraw_def)
  next
    case (Some mp)
    define s0 where "s0 = (if c then s\<lparr>canvas := []\<rparr> else s)"
    define r where "r = redraw_loop mp (search (mapBoundsBox (getMapBounds mp)) (positionsTree s0)) [] s0"
    have s0: "lmap s0 = lmap s" "addBackground s0 = addBackground s" "layers s0 = layers s"
      "positionsTree s0 = positionsTree s" "console s0 = console s" "heap s0 = heap s"
      by (simp_all add: s0_def)
    have fr: "lmap (fst (snd r)) = lmap s0" "addBackground (fst (snd r)) = addBackground s0"
      "layers (fst (snd r)) = layers s0" "positionsTree (fst (snd r)) = positionsTree s0"
      "console (fst (snd r)) = console s0"
      "latLng (heap (fst (snd r)) k) = latLng (heap s0 k)"
      "options (heap (fst (snd r)) k) = options (heap s0 k)"
      "indicators (heap (fst (snd r)) k) = indicators (heap s0 k)"
      using redraw_loop_frame [of mp "search (mapBoundsBox (getMapBounds mp)) (positionsTree s0)" "[]" s0]
      by (simp_all add: r_def)
    have "redraw c s = (case r of (markers, s1, Some e) \<Rightarrow> (s1, Some e)
              | (markers, s1, None) \<Rightarrow> (s1\<lparr>markersTree := load markers []\<rparr>, None))"
      by (simp add: redraw_def Some Let_def s0_def r_def)
    then show ?thesis
      using fr s0 by (cases r) (auto split: option.splits)
  qed
  then show "lmap (fst (redraw c s)) = lmap s"
  "addBackground (fst (redraw c s)) = addBackground s"
  "layers (fst (redraw c s)) = layers s"
  "positionsTree (fst (redraw c s)) = positionsTree s"
  "console (fst (redraw c s)) = console s"
  "latLng (heap (fst (redraw c s)) k) = latLng (heap s k)"
  "options (heap (fst (redraw c s)) k) = options (heap s k)"
  "indicators (heap (fst (redraw c s)) k) = indicators (heap s k)" by simp_all
qed


lemma getBounds_cong:
  "layers s' = layers s \<Longrightarrow> (\<And>k. latLng (heap s' k) = latLng (heap s k)) \<Longrightarrow> getBounds s' = getBounds s"
  by (simp add: getBounds_def cong: option.case_cong)

lemma removeMarkers_loop_frame:
  "lmap (snd (removeMarkers_loop mp ms h s)) = lmap s \<and>
   layers (snd (removeMarkers_loop mp ms h s)) = layers s \<and>
   heap (snd (removeMarkers_loop mp ms h s)) = heap s \<and>
   canvas (snd (removeMarkers_loop mp ms h s)) = canvas s \<and>
   markersTree (snd (removeMarkers_loop mp ms h s)) = markersTree s"
  by (induction ms arbitrary: h s) (simp_all add: Let_def)

lemma removeMarker_layers: "layers (fst (removeMarker m s)) = layers s"
  by (simp add: removeMarker_def Let_def redraw_frame split: option.splits)

lemma removeMarker_latLng: "latLng (heap (fst (removeMarker m s)) k) = latLng (heap s k)"
  by (simp add: removeMarker_def Let_def redraw_frame split: option.splits)

lemma removeMarker_positionsTree:
  "positionsTree (fst (removeMarker m s)) =
     (if lmap s = None then positionsTree s
      else remove (positionBox_of m (latLng (heap s m))) same_leaflet_id (positionsTree s))"
  by (simp add: removeMarker_def Let_def redraw_frame split: option.splits)

lemma removeMarkers_layers: "layers (fst (removeMarkers ms s)) = layers s"
  by (simp add: removeMarkers_def redraw_frame removeMarkers_loop_frame split: option.splits prod.splits)
    (metis removeMarkers_loop_frame snd_conv)

lemma removeMarkers_latLng: "latLng (heap (fst (removeMarkers ms s)) k) = latLng (heap s k)"
  by (simp add: removeMarkers_def redraw_frame removeMarkers_loop_frame split: option.splits prod.splits)
    (metis removeMarkers_loop_frame snd_conv)

text \<open>
  Claim C10. For every marker and every state of the layer, \<open>removeMarker\<close> and
  \<open>removeMarkers\<close> leave the registered markers as they were: \<open>getAllMarkers\<close> returns
  the same table, so a registered marker is still in it, and \<open>getBounds\<close> returns the
  same bounds. Of the marker's records only the one in the position index can go: the
  index after \<open>removeMarker\<close> is what \<open>remove\<close>, given the marker's position box and
  the test of identity, leaves of the old one (and the old one when no map is attached).
\<close>

theorem removal_keeps_registered_markers:
  "getAllMarkers (fst (removeMarker m s)) = getAllMarkers s \<and>
   getBounds (fst (removeMarker m s)) = getBounds s \<and>
   getAllMarkers (fst (removeMarkers ms s)) = getAllMarkers s \<and>
   getBounds (fst (removeMarkers ms s)) = getBounds s \<and>
   positionsTree (fst (removeMarker m s)) =
     (if lmap s = None then positionsTree s
      else remove (positionBox_of m (latLng (heap s m))) same_leaflet_id (positionsTree s))"
  by (simp add: getAllMarkers_def removeMarker_layers removeMarkers_layers removeMarker_positionsTree
      getBounds_cong [OF removeMarker_layers removeMarker_latLng]
      getBounds_cong [OF removeMarkers_layers removeMarkers_latLng])

section \<open>Removing markers\<close>

text \<open>
  From an index that holds a marker at one position, \<open>remove\<close> with the box of that
  position and the test of identity takes the first item of the marker.
\<close>

lemma remove_in_place:
  assumes "\<forall>b \<in> set t. marker b = m \<longrightarrow> b = positionBox_of m p"
  shows "remove (positionBox_of m p) same_leaflet_id t = remove1 (positionBox_of m p) t"
  using assms
proof (induction t)
  case Nil
  show ?case by simp
next
  case (Cons b t)
  show ?case
  proof (cases "marker b = m")
    case True
    then have b: "b = positionBox_of m p" using Cons.prems by simp
    show ?thesis
      by (simp add: b same_leaflet_id_def contains_bbox_def)
  next
    case False
    then have ne: "positionBox_of m p \<noteq> b" by (auto simp: positionBox_of_def)
    have "marker (positionBox_of m p) = m" by (simp add: positionBox_of_def)
    then have nm: "\<not> same_leaflet_id (positionBox_of m p) b"
      using False by (simp add: same_leaflet_id_def)
    show ?thesis
      using Cons.IH Cons.prems by (simp add: ne nm)
  qed
qed

lemma remove1_marker_list:
  assumes "\<forall>b \<in> set t. marker b = m \<longrightarrow> b = positionBox_of m p"
  shows "map marker (remove1 (positionBox_of m p) t) = remove1 m (map marker t)"
  using assms
proof (induction t)
  case Nil
  show ?case by simp
next
  case (Cons b t)
  have mk: "marker (positionBox_of m p) = m" by (simp add: positionBox_of_def)
  show ?case
  proof (cases "marker b = m")
    case True
    then have b: "b = positionBox_of m p" using Cons.prems by simp
    show ?thesis using True by (simp add: b [symmetric])
  next
    case False
    then have ne: "positionBox_of m p \<noteq> b" using mk by auto
    show ?thesis
      using Cons.IH Cons.prems False by (simp add: ne)
  qed
qed

lemma remove_subset: "set (remove item equalsFn t) \<subseteq> set t"
  by (induction t) auto

text \<open>
  The list and the tree agree when every item the equality function accepts contains
  the box passed in: then the traversal of a tree of any shape leaves the items that
  \<open>remove\<close> leaves of the list.
\<close>

lemma no_children_items: "no_children n \<Longrightarrow> items_of n = []"
  by (cases n) simp_all

lemma remove_append:
  "remove item equalsFn (xs @ ys) =
     (if list_ex (\<lambda>b. contains_bbox b item \<and> equalsFn item b) xs then remove item equalsFn xs @ ys
      else xs @ remove item equalsFn ys)"
  by (induction xs) auto

lemma remove_splice:
  assumes "\<forall>b \<in> set bs. equalsFn item b \<longrightarrow> contains_bbox b item"
  shows "remove item equalsFn bs = splice_first (equalsFn item) bs"
  using assms by (induction bs) auto

lemma remove_none:
  "\<not> list_ex (equalsFn item) bs \<Longrightarrow> remove item equalsFn bs = bs"
  by (induction bs) auto

lemma accepted_node_contains:
  assumes "b \<in> set (items_of n)" and "contains_bbox b item"
  shows "node_contains n item"
  using assms by (auto simp: node_contains_def contains_bbox_def list_ex_iff)

lemma remove_node_refines:
  "(\<forall>b \<in> set (items_of n). equalsFn item b \<longrightarrow> contains_bbox b item) \<Longrightarrow>
     (case remove_node item equalsFn n of
        None \<Rightarrow> \<not> list_ex (equalsFn item) (items_of n)
      | Some n' \<Rightarrow> list_ex (equalsFn item) (items_of n) \<and>
                  items_of n' = remove item equalsFn (items_of n))"
  "(\<forall>b \<in> set (concat (map items_of ns)). equalsFn item b \<longrightarrow> contains_bbox b item) \<Longrightarrow>
     (case remove_nodes item equalsFn ns of
        None \<Rightarrow> \<not> list_ex (equalsFn item) (concat (map items_of ns))
      | Some ns' \<Rightarrow> list_ex (equalsFn item) (concat (map items_of ns)) \<and>
                   concat (map items_of ns') = remove item equalsFn (concat (map items_of ns)))"
proof (induction item equalsFn n and item equalsFn ns rule: remove_node_remove_nodes.induct)
  case (1 item equalsFn bs)
  then show ?case by (simp add: remove_splice)
next
  case (2 item equalsFn ns)
  show ?case
  proof (cases "node_contains (Inner ns) item")
    case True
    then show ?thesis using 2 by (simp split: option.splits)
  next
    case False
    have "\<not> list_ex (equalsFn item) (concat (map items_of ns))"
    proof
      assume "list_ex (equalsFn item) (concat (map items_of ns))"
      then obtain b where b: "b \<in> set (items_of (Inner ns))" "equalsFn item b"
        by (auto simp: list_ex_iff)
      then have "contains_bbox b item" using 2(2) by auto
      then have "node_contains (Inner ns) item" using b(1) by (rule accepted_node_contains [rotated])
      then show False using False by simp
    qed
    then show ?thesis using False by simp
  qed
next
  case (3 item equalsFn)
  show ?case by simp
next
  case (4 item equalsFn n ns)
  have pn: "\<forall>b \<in> set (items_of n). equalsFn item b \<longrightarrow> contains_bbox b item"
    and pns: "\<forall>b \<in> set (concat (map items_of ns)). equalsFn item b \<longrightarrow> contains_bbox b item"
    using 4(3) by auto
  show ?case
  proof (cases "remove_node item equalsFn n")
    case None
    have a: "\<not> list_ex (equalsFn item) (items_of n)" using 4(1) [OF pn] None by simp
    then have na: "\<not> list_ex (\<lambda>b. contains_bbox b item \<and> equalsFn item b) (items_of n)"
      by (auto simp: list_ex_iff)
    note IH = 4(2) [OF None pns]
    show ?thesis
      using IH a na by (auto simp: None remove_append list_ex_iff split: option.splits)
  next
    case (Some n')
    have a: "list_ex (equalsFn item) (items_of n)" "items_of n' = remove item equalsFn (items_of n)"
      using 4(1) [OF pn] Some by simp_all
    have ya: "list_ex (\<lambda>b. contains_bbox b item \<and> equalsFn item b) (items_of n)"
      using a(1) pn by (auto simp: list_ex_iff)
    show ?thesis
      using a ya by (auto simp: Some remove_append list_ex_iff no_children_items)
  qed
qed

lemma tree_remove_in_place:
  assumes "\<forall>b \<in> set (items_of tr). equalsFn item b \<longrightarrow> contains_bbox b item"
  shows "items_of (tree_remove item equalsFn tr) = remove item equalsFn (items_of tr)"
proof (cases "remove_node item equalsFn tr")
  case None
  then have "\<not> list_ex (equalsFn item) (items_of tr)"
    using remove_node_refines(1) [where n = tr and equalsFn = equalsFn and item = item, OF assms] by simp
  then show ?thesis by (simp add: tree_remove_def None remove_none)
next
  case (Some r)
  then have "items_of r = remove item equalsFn (items_of tr)"
    using remove_node_refines(1) [where n = tr and equalsFn = equalsFn and item = item, OF assms] by simp
  then show ?thesis by (auto simp: tree_remove_def Some no_children_items)
qed



lemma removeMarkers_loop_eq:
  "removeMarkers_loop mp ms h s =
     (h \<or> (\<exists>m \<in> set ms. contains (getMapBounds mp) (latLng (heap s m))),
      s\<lparr>positionsTree :=
          foldl (\<lambda>t m. remove (positionBox_of m (latLng (heap s m))) same_leaflet_id t)
            (positionsTree s) ms\<rparr>)"
  by (induction ms arbitrary: h s) (auto simp: Let_def)

lemma ex_added_fields:
  "lmap ex_added = Some view0"
  "positionsTree ex_added =
     [positionBox_of 2 \<lparr>lat = 5, lng = 5\<rparr>, positionBox_of 3 \<lparr>lat = 4, lng = 6\<rparr>,
      positionBox_of 4 \<lparr>lat = 50, lng = 50\<rparr>]"
  "latLng (heap ex_added 2) = \<lparr>lat = 5, lng = 5\<rparr>"
  "latLng (heap ex_added 3) = \<lparr>lat = 4, lng = 6\<rparr>"
  "latLng (heap ex_added 4) = \<lparr>lat = 50, lng = 50\<rparr>"
  by (simp_all add: ex_added_def fixture_defs engine_defs)

section \<open>Adding a marker that is not configured\<close>

text \<open>
  Claim C8, as amended. \<open>addMarker\<close> has two answers to a marker that is not configured.
  A marker without an icon (or in a pane other than \<open>markerPane\<close>) is logged once and
  refused without an exception: the result holds no boxes. A marker with an icon that
  lacks its anchor or its size makes \<open>addMarker\<close>, on an attached map, throw; nothing is
  logged. Without a map such a marker is refused silently. In all three cases nothing is
  registered, drawn or indexed: apart from the console the state stays as it was.
\<close>

theorem addMarker_misconfigured:
  "((pane (options (heap s m)) \<noteq> ''markerPane'' \<or> icon (options (heap s m)) = None) \<longrightarrow>
      addMarker m s = (s\<lparr>console := console s @ [NotAMarker m]\<rparr>, Inr rejected))
   \<and> ((pane (options (heap s m)) = ''markerPane'' \<and> icon (options (heap s m)) = Some io \<and>
        lmap s = Some mp \<and> (iconAnchor io = None \<or> iconSize io = None)) \<longrightarrow>
      addMarker m s = (s, Inl IconPropertiesUndefined))
   \<and> ((pane (options (heap s m)) = ''markerPane'' \<and> icon (options (heap s m)) = Some io \<and>
        lmap s = None) \<longrightarrow>
      addMarker m s = (s, Inr rejected))"
  by (auto simp: addMarker_def Let_def split: option.splits)

theorem addMarker_misconfigured_witness:
  "addMarker 5 ex_attached = (ex_attached\<lparr>console := [NotAMarker 5]\<rparr>, Inr rejected)
   \<and> addMarker 6 ex_attached = (ex_attached, Inl IconPropertiesUndefined)
   \<and> addMarker 6 (init False heap0) = (init False heap0, Inr rejected)"
  using addMarker_misconfigured [of ex_attached 5]
    addMarker_misconfigured [of ex_attached 6 "icon_a\<lparr>iconSize := None\<rparr>" view0]
    addMarker_misconfigured [of "init False heap0" 6 "icon_a\<lparr>iconSize := None\<rparr>"]
  by (simp add: fixture_defs)

text \<open>
  The claim as it was stated fails on both markers: the one without a size is refused
  with an exception and no log entry, the one without an icon with a log entry and no
  exception.
\<close>

theorem addMarker_counterexample:
  "console (fst (addMarker 6 ex_attached)) = console ex_attached
   \<and> snd (addMarker 6 ex_attached) = Inl IconPropertiesUndefined
   \<and> snd (addMarker 5 ex_attached) = Inr rejected
   \<and> console (fst (addMarker 5 ex_attached)) = console ex_attached @ [NotAMarker 5]"
  by (simp add: fixture_defs addMarker_def)

section \<open>The halo colour\<close>

lemma halo_ok_cong:
  "colorMap s' = colorMap s \<Longrightarrow> canvas s' = canvas s \<Longrightarrow> halo_ok s' = halo_ok s"
  by (simp add: halo_ok_def)

lemma halo_ok_clear: "halo_ok s \<Longrightarrow> colorMap s' = colorMap s \<Longrightarrow> canvas s' = [] \<Longrightarrow> halo_ok s'"
  by (simp add: halo_ok_def)

lemma generateDynamicHexcode_not_empty: "generateDynamicHexcode u \<noteq> []"
  by (simp add: generateDynamicHexcode_def Let_def)

lemma drawImage_halo_ok: "halo_ok s \<Longrightarrow> halo_ok (fst (drawImage m xy s))"
  by (auto simp: drawImage_def halo_ok_def memo_colour_def Let_def split: option.splits if_splits)

lemma drawMarker_halo_ok: "halo_ok s \<Longrightarrow> halo_ok (fst (drawMarker m xy s))"
proof -
  assume h: "halo_ok s"
  have a: "\<And>img. halo_ok (set_image m img s)"
    using h by (simp add: halo_ok_def set_image_def)
  have b: "\<And>img ic. halo_ok ((set_image m img s)\<lparr>icons := ic\<rparr>)"
    using h by (simp add: halo_ok_def set_image_def)
  have c: "\<And>img ic l. halo_ok ((set_image m img (s\<lparr>loads := l\<rparr>))\<lparr>icons := ic\<rparr>)"
    using h by (simp add: halo_ok_def set_image_def)
  show ?thesis
    using h a b c by (simp add: drawMarker_def Let_def drawImage_halo_ok split: option.splits)
qed

lemma flush_halo_ok: "halo_ok s \<Longrightarrow> halo_ok (fst (flush es s))"
proof (induction es arbitrary: s)
  case Nil
  then show ?case by simp
next
  case (Cons e es)
  obtain m x y where e: "e = (m, x, y)" by (cases e)
  show ?case
  proof (cases "lmap s")
    case None
    then show ?thesis using Cons.prems by (simp add: e)
  next
    case (Some mp)
    obtain s1 r where d: "drawImage m (latLngToContainerPoint mp (latLng (heap s m))) s = (s1, r)"
      by (cases "drawImage m (latLngToContainerPoint mp (latLng (heap s m))) s")
    have "halo_ok s1"
      using drawImage_halo_ok [OF Cons.prems, of m "latLngToContainerPoint mp (latLng (heap s m))"] d by simp
    then show ?thesis
      using Cons.IH [of s1] by (simp add: e Some d split: option.splits)
  qed
qed

lemma image_onload_halo_ok: "halo_ok s \<Longrightarrow> halo_ok (fst (image_onload u s))"
proof -
  assume h: "halo_ok s"
  have "\<And>ic. halo_ok (s\<lparr>icons := ic\<rparr>)" using h by (simp add: halo_ok_def)
  then show ?thesis using h by (simp add: image_onload_def flush_halo_ok split: option.splits)
qed

lemma image_onerror_halo_ok: "halo_ok s \<Longrightarrow> halo_ok (fst (image_onerror u s))"
  by (simp add: image_onerror_def halo_ok_def split: option.splits)

lemma redraw_loop_halo_ok: "halo_ok s \<Longrightarrow> halo_ok (fst (snd (redraw_loop mp bs acc s)))"
proof (induction bs arbitrary: acc s)
  case Nil
  then show ?case by simp
next
  case (Cons b bs)
  obtain s1 r where d: "drawMarker (marker b) (latLngToContainerPoint mp (latLng (heap s (marker b)))) s = (s1, r)"
    by (cases "drawMarker (marker b) (latLngToContainerPoint mp (latLng (heap s (marker b)))) s")
  have "halo_ok s1"
    using drawMarker_halo_ok [OF Cons.prems, of "marker b" "latLngToContainerPoint mp (latLng (heap s (marker b)))"] d
    by simp
  then show ?case
    using Cons.IH [of s1] Cons.prems by (simp add: d Let_def split: option.splits)
qed

lemma redraw_halo_ok: "halo_ok s \<Longrightarrow> halo_ok (fst (redraw c s))"
proof -
  assume h: "halo_ok s"
  show ?thesis
  proof (cases "lmap s")
    case None
    then show ?thesis using h by (simp add: redraw_def)
  next
    case (Some mp)
    define s0 where "s0 = (if c then s\<lparr>canvas := []\<rparr> else s)"
    have h0: "halo_ok s0" using h by (simp add: s0_def halo_ok_def)
    define r where "r = redraw_loop mp (search (mapBoundsBox (getMapBounds mp)) (positionsTree s0)) [] s0"
    have h1: "halo_ok (fst (snd r))" unfolding r_def by (rule redraw_loop_halo_ok [OF h0])
    have "\<And>t. halo_ok ((fst (snd r))\<lparr>markersTree := t\<rparr>)" using h1 by (simp add: halo_ok_def)
    moreover have "redraw c s = (case r of (markers, s1, Some e) \<Rightarrow> (s1, Some e)
              | (markers, s1, None) \<Rightarrow> (s1\<lparr>markersTree := load markers []\<rparr>, None))"
      by (simp add: redraw_def Some Let_def s0_def r_def)
    ultimately show ?thesis using h1 by (cases r) (auto split: option.splits)
  qed
qed

lemma halo_ok_layers: "halo_ok (s\<lparr>layers := l\<rparr>) = halo_ok s"
  by (simp add: halo_ok_def)

lemma drawMarker_halo_ok': "halo_ok s \<Longrightarrow> drawMarker m xy s = (s1, r) \<Longrightarrow> halo_ok s1"
  using drawMarker_halo_ok [of s m xy] by simp

lemma addMarker_halo_ok: "halo_ok s \<Longrightarrow> halo_ok (fst (addMarker m s))"
proof -
  assume h: "halo_ok s"
  have a: "\<And>c. halo_ok (s\<lparr>console := c\<rparr>)" using h by (simp add: halo_ok_def)
  show ?thesis
    using h a
    by (auto simp: addMarker_def Let_def halo_ok_layers split: option.splits prod.splits if_splits
        dest: drawMarker_halo_ok')
qed

lemma addMarker_halo_ok': "halo_ok s \<Longrightarrow> addMarker m s = (s1, r) \<Longrightarrow> halo_ok s1"
  using addMarker_halo_ok [of s m] by simp

lemma addMarkers_loop_halo_ok:
  "halo_ok s \<Longrightarrow> halo_ok (fst (snd (snd (addMarkers_loop ms mb pb s))))"
proof (induction ms arbitrary: mb pb s)
  case Nil
  then show ?case by simp
next
  case (Cons m ms)
  obtain s1 r where a: "addMarker m s = (s1, r)" by (cases "addMarker m s")
  have "halo_ok s1" using addMarker_halo_ok' [OF Cons.prems a] .
  then show ?case using Cons.IH [of s1] by (simp add: a split: sum.splits)
qed

lemma addMarkers_halo_ok: "halo_ok s \<Longrightarrow> halo_ok (fst (addMarkers ms s))"
proof -
  assume h: "halo_ok s"
  obtain mb pb s1 r where l: "addMarkers_loop ms [] [] s = (mb, pb, s1, r)"
    by (cases "addMarkers_loop ms [] [] s")
  have "halo_ok s1" using addMarkers_loop_halo_ok [OF h, of ms "[]" "[]"] l by simp
  then show ?thesis by (simp add: addMarkers_def l halo_ok_def split: option.splits)
qed

lemma removeMarker_halo_ok: "halo_ok s \<Longrightarrow> halo_ok (fst (removeMarker m s))"
proof -
  assume h: "halo_ok s"
  have "\<And>t. halo_ok (s\<lparr>positionsTree := t\<rparr>)" using h by (simp add: halo_ok_def)
  then show ?thesis using h by (simp add: removeMarker_def Let_def redraw_halo_ok split: option.splits)
qed

lemma removeMarkers_loop_halo_ok: "halo_ok s \<Longrightarrow> halo_ok (snd (removeMarkers_loop mp ms h s))"
proof (induction ms arbitrary: h s)
  case Nil
  then show ?case by simp
next
  case (Cons m ms)
  have "\<And>t. halo_ok (s\<lparr>positionsTree := t\<rparr>)" using Cons.prems by (simp add: halo_ok_def)
  then show ?case using Cons.IH by (simp add: Let_def)
qed

lemma removeMarkers_halo_ok: "halo_ok s \<Longrightarrow> halo_ok (fst (removeMarkers ms s))"
proof -
  assume h: "halo_ok s"
  show ?thesis
  proof (cases "lmap s")
    case None
    then show ?thesis using h by (simp add: removeMarkers_def)
  next
    case (Some mp)
    obtain c s1 where l: "removeMarkers_loop mp ms False s = (c, s1)"
      by (cases "removeMarkers_loop mp ms False s")
    have "halo_ok s1" using removeMarkers_loop_halo_ok [OF h, of mp ms False] l by simp
    then show ?thesis by (simp add: removeMarkers_def Some l redraw_halo_ok)
  qed
qed

lemma clear_halo_ok: "halo_ok s \<Longrightarrow> halo_ok (fst (clear s))"
proof -
  assume h: "halo_ok s"
  have "halo_ok (s\<lparr>positionsTree := [], markersTree := [], layers := []\<rparr>)"
    using h by (simp add: halo_ok_def)
  then show ?thesis unfolding clear_def by (rule redraw_halo_ok)
qed

lemma step_halo_ok: "halo_ok s \<Longrightarrow> halo_ok (step e s)"
proof (cases e)
  case (OnAdd mp)
  assume "halo_ok s"
  then show ?thesis by (simp add: OnAdd onAdd_def halo_ok_def)
next
  case OnRemove
  assume "halo_ok s"
  then show ?thesis by (simp add: OnRemove halo_ok_def)
next
  case (MoveEnd mp)
  assume h: "halo_ok s"
  then have "halo_ok (s\<lparr>lmap := Some mp\<rparr>)" by (simp add: halo_ok_def)
  then show ?thesis using h by (simp add: MoveEnd reset_def redraw_halo_ok)
qed (simp_all add: addMarker_halo_ok addMarkers_halo_ok removeMarker_halo_ok removeMarkers_halo_ok
      redraw_halo_ok clear_halo_ok image_onload_halo_ok image_onerror_halo_ok)

lemma run_halo_ok: "halo_ok s \<Longrightarrow> halo_ok (run evs s)"
  unfolding run_def by (induction evs arbitrary: s) (simp_all add: step_halo_ok)

lemma init_halo_ok: "halo_ok (init bg h)"
  by (simp add: halo_ok_def init_def)

lemma hexcode_a_png: "generateDynamicHexcode ''a.png'' = ''#1c836d''"
  by (simp add: generateDynamicHexcode_def hash_char_def toInt32_def colour_byte_def hex2_def hex_digit_def)

text \<open>
  Claim C9. The halo colour is a function of the image source alone. Whatever has
  happened to a layer since its creation, every halo on its canvas has the colour
  \<open>_generateDynamicHexcode\<close> computes from the source of the image it surrounds, whether
  it was computed for that draw or read from \<open>_colorMap\<close>, and the memo holds no other
  colour. So two draws of the same source always get the same colour string.
\<close>

theorem halo_colour_deterministic:
  "(\<forall>d \<in> set (canvas (run evs (init bg h))). \<forall>c r.
      d_halo d = Some (c, r) \<longrightarrow> c = generateDynamicHexcode (src (d_image d)))
   \<and> (\<forall>k c. colorMap (run evs (init bg h)) k = Some c \<longrightarrow> c = generateDynamicHexcode k)"
  using run_halo_ok [OF init_halo_ok, of evs bg h] by (simp add: halo_ok_def)

theorem halo_colour_deterministic_witness:
  "map d_halo (canvas (run [OnAdd view0, AddMarkers [2, 3], ImageLoad ''a.png''] (init True heap0))) =
     [Some (''#1c836d'', 32 / 1.5), Some (''#1c836d'', 32 / 1.5)]
   \<and> map (\<lambda>d. src (d_image d))
         (canvas (run [OnAdd view0, AddMarkers [2, 3], ImageLoad ''a.png''] (init True heap0))) =
     [''a.png'', ''a.png'']
   \<and> generateDynamicHexcode ''a.png'' = ''#1c836d''"
  using halo_colour_deterministic [of "[OnAdd view0, AddMarkers [2, 3], ImageLoad ''a.png'']" True heap0]
  by (simp add: run_def pending_def fixture_defs engine_defs hexcode_a_png)

section \<open>The icon cache\<close>

lemma drawable_cong: "heap s' = heap s \<Longrightarrow> drawable s' m = drawable s m"
  by (simp add: drawable_def cong: option.case_cong)

lemma drawImage_drawable:
  assumes "drawable s m"
  shows "snd (drawImage m xy s) = None"
    and "map (\<lambda>d. (d_marker d, d_at d)) (canvas (fst (drawImage m xy s))) =
         map (\<lambda>d. (d_marker d, d_at d)) (canvas s) @ [(m, xy)]"
  using assms by (auto simp: drawImage_def drawable_def Let_def split: option.splits)

lemma flush_draws:
  assumes "lmap s = Some mp" and "\<forall>q \<in> set es. drawable s (fst q)"
  shows "snd (flush es s) = None \<and>
         map (\<lambda>d. (d_marker d, d_at d)) (canvas (fst (flush es s))) =
           map (\<lambda>d. (d_marker d, d_at d)) (canvas s) @
           map (\<lambda>q. (fst q, latLngToContainerPoint mp (latLng (heap s (fst q))))) es"
  using assms
proof (induction es arbitrary: s)
  case Nil
  then show ?case by simp
next
  case (Cons q es)
  obtain m x y where q: "q = (m, x, y)" by (cases q)
  let ?xy = "latLngToContainerPoint mp (latLng (heap s m))"
  obtain s1 r where d: "drawImage m ?xy s = (s1, r)" by (cases "drawImage m ?xy s")
  have dm: "drawable s m" using Cons.prems(2) by (simp add: q)
  have r: "r = None" using drawImage_drawable(1) [OF dm, of ?xy] d by simp
  have c: "map (\<lambda>d. (d_marker d, d_at d)) (canvas s1) = map (\<lambda>d. (d_marker d, d_at d)) (canvas s) @ [(m, ?xy)]"
    using drawImage_drawable(2) [OF dm, of ?xy] d by simp
  have h: "heap s1 = heap s" "lmap s1 = Some mp"
    using drawImage_frame(1,7) [of m ?xy s] d Cons.prems(1) by simp_all
  have "\<forall>q \<in> set es. drawable s1 (fst q)"
    using Cons.prems(2) by (simp add: drawable_cong [OF h(1)])
  from Cons.IH [OF h(2) this] show ?case
    by (simp add: q Cons.prems(1) d r c h)
qed

lemma image_onload_flushes:
  assumes "lmap s = Some mp" and "icons s u = Some e"
    and "\<forall>q \<in> set (elements e). drawable s (fst q)"
  shows "snd (image_onload u s) = None \<and>
         map (\<lambda>d. (d_marker d, d_at d)) (canvas (fst (image_onload u s))) =
           map (\<lambda>d. (d_marker d, d_at d)) (canvas s) @
           map (\<lambda>q. (fst q, latLngToContainerPoint mp (latLng (heap s (fst q))))) (elements e)"
proof -
  let ?s1 = "s\<lparr>icons := (icons s)(u \<mapsto> e\<lparr>isLoaded := True\<rparr>)\<rparr>"
  have a: "lmap ?s1 = Some mp" using assms(1) by simp
  have b: "\<forall>q \<in> set (elements e). drawable ?s1 (fst q)"
    using assms(3) by (simp add: drawable_cong [of ?s1 s])
  show ?thesis
    using flush_draws [OF a b] by (simp add: image_onload_def assms(2))
qed

lemma ex_queued_fields:
  "lmap ex_queued = Some view0"
  "icons ex_queued ''a.png'' =
     Some \<lparr> isLoaded = False, icon_image = HTMLImageElement ''a.png'',
            elements = [(2, 50, 50), (3, 60, 60)], hasErrored = False \<rparr>"
  "canvas ex_queued = []"
  "loads ex_queued = [''a.png'']"
  "drawable ex_queued 2"
  "drawable ex_queued 3"
  "latLng (heap ex_queued 2) = \<lparr>lat = 5, lng = 5\<rparr>"
  "latLng (heap ex_queued 3) = \<lparr>lat = 4, lng = 6\<rparr>"
  by (simp_all add: ex_queued_def drawable_def fixture_defs engine_defs)

text \<open>
  Claim C2. When the image of a URL has loaded, \<open>onload\<close> draws every queued request, in
  the order of the queue, at the screen point the map gives for the marker's position at
  that moment: the state in which \<open>onload\<close> runs decides, and the coordinates stored
  with the request are not used. (The queued markers are drawable: \<open>_drawMarker\<close> gave
  each its image, and \<open>addMarker\<close> and \<open>redraw\<close> check anchor and size before they call it.)
\<close>

theorem onload_draws_at_recomputed_position:
  assumes "lmap s = Some mp" and "icons s u = Some e"
    and "\<forall>q \<in> set (elements e). drawable s (fst q)"
  shows "snd (image_onload u s) = None \<and>
         map (\<lambda>d. (d_marker d, d_at d)) (canvas (fst (image_onload u s))) =
           map (\<lambda>d. (d_marker d, d_at d)) (canvas s) @
           map (\<lambda>q. (fst q, latLngToContainerPoint mp (latLng (heap s (fst q))))) (elements e)"
  using assms by (rule image_onload_flushes)

text \<open>
  The witness lets the map move between the requests and the load: the requests were
  queued at (50, 50) and (60, 60), the draws happen at (30, 50) and (40, 60).
\<close>

theorem onload_draws_at_recomputed_position_witness:
  "map_option elements (icons (ex_queued\<lparr>lmap := Some view1\<rparr>) ''a.png'') = Some [(2, 50, 50), (3, 60, 60)]
   \<and> snd (image_onload ''a.png'' (ex_queued\<lparr>lmap := Some view1\<rparr>)) = None
   \<and> map (\<lambda>d. (d_marker d, d_at d)) (canvas (fst (image_onload ''a.png'' (ex_queued\<lparr>lmap := Some view1\<rparr>)))) =
       [(2, (30, 50)), (3, (40, 60))]"
proof -
  let ?s = "ex_queued\<lparr>lmap := Some view1\<rparr>"
  have a: "lmap ?s = Some view1" by simp
  have b: "icons ?s ''a.png'' =
     Some \<lparr> isLoaded = False, icon_image = HTMLImageElement ''a.png'',
            elements = [(2, 50, 50), (3, 60, 60)], hasErrored = False \<rparr>"
    by (simp add: ex_queued_fields)
  have h: "heap ?s = heap ex_queued" by simp
  have c: "\<forall>q \<in> set (elements \<lparr> isLoaded = False, icon_image = HTMLImageElement ''a.png'',
            elements = [(2, 50, 50), (3, 60, 60)], hasErrored = False \<rparr>). drawable ?s (fst q)"
    by (simp add: drawable_cong [OF h] ex_queued_fields)
  show ?thesis
    using onload_draws_at_recomputed_position [OF a b c]
    by (simp add: ex_queued_fields view1_def)
qed

lemma request_draws_simps:
  "request_draws [] s = s"
  "request_draws ((m, xy) # reqs) s = request_draws reqs (fst (drawMarker m xy s))"
  by (simp_all add: request_draws_def)

lemma drawMarker_first:
  assumes "icons s u = None" and "fresh s u m"
  shows "drawMarker m xy s =
     ((set_image m (HTMLImageElement u) (s\<lparr>loads := loads s @ [u]\<rparr>))
        \<lparr>icons := (icons s)(u \<mapsto> \<lparr> isLoaded = False, icon_image = HTMLImageElement u,
             elements = [(m, fst xy, snd xy)], hasErrored = False \<rparr>)\<rparr>, None)"
  using assms by (auto simp: drawMarker_def fresh_def set_image_def Let_def split: option.splits)

lemma drawMarker_pending:
  assumes "icons s u = Some e" and "\<not> isLoaded e" and "\<not> hasErrored e" and "fresh s u m"
  shows "drawMarker m xy s =
     ((set_image m (icon_image e) s)
        \<lparr>icons := (icons s)(u \<mapsto> e\<lparr>elements := elements e @ [(m, fst xy, snd xy)]\<rparr>)\<rparr>, None)"
  using assms by (auto simp: drawMarker_def fresh_def set_image_def Let_def split: option.splits)

lemma fresh_other:
  "fresh s u k \<Longrightarrow> k \<noteq> m \<Longrightarrow> fresh ((set_image m img s)\<lparr>icons := ic\<rparr>) u k"
  by (simp add: fresh_def set_image_def)

lemma drawable_other:
  "drawable s k \<Longrightarrow> drawable ((set_image m img s)\<lparr>icons := ic\<rparr>) k"
  by (auto simp: drawable_def set_image_def split: option.splits)

lemma fresh_drawable_after:
  "fresh s u m \<Longrightarrow> drawable ((set_image m img s)\<lparr>icons := ic\<rparr>) m"
  by (auto simp: drawable_def fresh_def set_image_def split: option.splits)

lemma request_draws_pending:
  assumes "icons s u = Some e" and "\<not> isLoaded e" and "\<not> hasErrored e"
    and "distinct (map fst reqs)" and "\<forall>r \<in> set reqs. fresh s u (fst r)"
  shows "loads (request_draws reqs s) = loads s \<and>
         canvas (request_draws reqs s) = canvas s \<and>
         lmap (request_draws reqs s) = lmap s \<and>
         icons (request_draws reqs s) u =
           Some (e\<lparr>elements := elements e @ map (\<lambda>r. (fst r, fst (snd r), snd (snd r))) reqs\<rparr>) \<and>
         (\<forall>k. drawable s k \<longrightarrow> drawable (request_draws reqs s) k) \<and>
         (\<forall>r \<in> set reqs. drawable (request_draws reqs s) (fst r))"
  using assms
proof (induction reqs arbitrary: s e)
  case Nil
  then show ?case by (simp add: request_draws_simps)
next
  case (Cons r reqs)
  obtain m xy where r: "r = (m, xy)" by (cases r)
  let ?e1 = "e\<lparr>elements := elements e @ [(m, fst xy, snd xy)]\<rparr>"
  let ?s1 = "(set_image m (icon_image e) s)\<lparr>icons := (icons s)(u \<mapsto> ?e1)\<rparr>"
  have fm: "fresh s u m" using Cons.prems(5) by (simp add: r)
  have d: "drawMarker m xy s = (?s1, None)"
    by (rule drawMarker_pending [OF Cons.prems(1,2,3) fm])
  have i1: "icons ?s1 u = Some ?e1" by simp
  have p1: "\<not> isLoaded ?e1" "\<not> hasErrored ?e1" using Cons.prems(2,3) by simp_all
  have d1: "distinct (map fst reqs)" using Cons.prems(4) by simp
  have f1: "\<forall>r \<in> set reqs. fresh ?s1 u (fst r)"
  proof
    fix q assume q: "q \<in> set reqs"
    then have "fst q \<noteq> m" using Cons.prems(4) by (auto simp: r)
    moreover have "fresh s u (fst q)" using Cons.prems(5) q by simp
    ultimately show "fresh ?s1 u (fst q)" by (rule fresh_other [rotated])
  qed
  note IH = Cons.IH [OF i1 p1 d1 f1]
  have fr: "loads ?s1 = loads s" "canvas ?s1 = canvas s" "lmap ?s1 = lmap s"
    by (simp_all add: set_image_def)
  have dk: "\<And>k. drawable s k \<Longrightarrow> drawable ?s1 k" by (rule drawable_other)
  have dm: "drawable ?s1 m" by (rule fresh_drawable_after [OF fm])
  show ?case
    using IH fr dk dm by (simp add: r request_draws_simps d)
qed

lemma drawImage_halo_colour: "halo_colour (fst (drawImage m xy s)) k = halo_colour s k"
  by (auto simp: drawImage_def halo_colour_def memo_colour_def Let_def generateDynamicHexcode_not_empty
      split: option.splits)

lemma drawImage_icon_draw:
  assumes "icon_draw s mp img m = Some d" and "marker_image (heap s m) = Some img"
  shows "snd (drawImage m (latLngToContainerPoint mp (latLng (heap s m))) s) = None"
    and "canvas (fst (drawImage m (latLngToContainerPoint mp (latLng (heap s m))) s)) = canvas s @ [d]"
  using assms
  by (auto simp: drawImage_def icon_draw_def halo_colour_def Let_def split: option.splits)

lemma icon_draw_cong:
  assumes "options (heap s' m) = options (heap s m)" and "latLng (heap s' m) = latLng (heap s m)"
    and "indicators (heap s' m) = indicators (heap s m)" and "addBackground s' = addBackground s"
    and "halo_colour s' (src img) = halo_colour s (src img)"
  shows "icon_draw s' mp img m = icon_draw s mp img m"
  using assms by (simp add: icon_draw_def split: option.splits)

lemma icon_draw_drawable:
  "drawable s m \<Longrightarrow> \<exists>d. icon_draw s mp img m = Some d"
  by (auto simp: drawable_def icon_draw_def split: option.splits)

lemma flush_icon_draws:
  assumes "lmap s = Some mp"
    and "\<forall>q \<in> set es. drawable s (fst q) \<and> marker_image (heap s (fst q)) = Some img"
  shows "snd (flush es s) = None \<and>
         loads (fst (flush es s)) = loads s \<and>
         map Some (canvas (fst (flush es s))) =
           map Some (canvas s) @ map (\<lambda>q. icon_draw s mp img (fst q)) es"
  using assms
proof (induction es arbitrary: s)
  case Nil
  then show ?case by simp
next
  case (Cons q es)
  obtain m x y where q: "q = (m, x, y)" by (cases q)
  let ?xy = "latLngToContainerPoint mp (latLng (heap s m))"
  obtain s1 r where d: "drawImage m ?xy s = (s1, r)" by (cases "drawImage m ?xy s")
  have dm: "drawable s m" and im: "marker_image (heap s m) = Some img"
    using Cons.prems(2) by (simp_all add: q)
  obtain d0 where d0: "icon_draw s mp img m = Some d0"
    using icon_draw_drawable [OF dm] by blast
  have r: "r = None" using drawImage_icon_draw(1) [OF d0 im] d by simp
  have c: "canvas s1 = canvas s @ [d0]"
    using drawImage_icon_draw(2) [OF d0 im] d by simp
  have h: "heap s1 = heap s" "lmap s1 = Some mp" "addBackground s1 = addBackground s" "loads s1 = loads s"
    using drawImage_frame(1,2,7,8) [of m ?xy s] d Cons.prems(1) by simp_all
  have hc: "\<And>k. halo_colour s1 k = halo_colour s k"
    using drawImage_halo_colour [of m ?xy s] d by simp
  have id: "\<And>k. icon_draw s1 mp img k = icon_draw s mp img k"
    by (rule icon_draw_cong) (simp_all add: h hc)
  have "\<forall>q \<in> set es. drawable s1 (fst q) \<and> marker_image (heap s1 (fst q)) = Some img"
    using Cons.prems(2) by (simp add: drawable_cong [OF h(1)] h(1))
  from Cons.IH [OF h(2) this] show ?case
    by (simp add: q Cons.prems(1) d r c h id d0)
qed

lemma image_onload_icon_draws:
  assumes "lmap s = Some mp" and "icons s u = Some e"
    and "\<forall>q \<in> set (elements e). drawable s (fst q) \<and> marker_image (heap s (fst q)) = Some img"
  shows "snd (image_onload u s) = None \<and>
         loads (fst (image_onload u s)) = loads s \<and>
         map Some (canvas (fst (image_onload u s))) =
           map Some (canvas s) @ map (\<lambda>q. icon_draw s mp img (fst q)) (elements e)"
proof -
  let ?s1 = "s\<lparr>icons := (icons s)(u \<mapsto> e\<lparr>isLoaded := True\<rparr>)\<rparr>"
  have a: "lmap ?s1 = Some mp" using assms(1) by simp
  have b: "\<forall>q \<in> set (elements e). drawable ?s1 (fst q) \<and> marker_image (heap ?s1 (fst q)) = Some img"
    using assms(3) by (simp add: drawable_cong [of ?s1 s])
  have hc: "halo_colour ?s1 (src img) = halo_colour s (src img)"
    by (simp add: halo_colour_def memo_colour_def)
  have id: "\<And>k. icon_draw ?s1 mp img k = icon_draw s mp img k"
    by (rule icon_draw_cong) (simp_all add: hc)
  show ?thesis
    using flush_icon_draws [OF a b] by (simp add: image_onload_def assms(2) id)
qed


lemma request_draws_heap:
  "addBackground (request_draws reqs s) = addBackground s \<and>
   (\<forall>k. latLng (heap (request_draws reqs s) k) = latLng (heap s k) \<and>
        options (heap (request_draws reqs s) k) = options (heap s k) \<and>
        indicators (heap (request_draws reqs s) k) = indicators (heap s k))"
proof (induction reqs arbitrary: s)
  case Nil
  show ?case by (simp add: request_draws_simps)
next
  case (Cons r reqs)
  obtain m xy where r: "r = (m, xy)" by (cases r)
  show ?case
    using Cons.IH [of "fst (drawMarker m xy s)"]
    by (simp add: r request_draws_simps drawMarker_frame drawMarker_heap)
qed

lemma request_draws_pending_images:
  assumes "icons s u = Some e" and "\<not> isLoaded e" and "\<not> hasErrored e"
    and "distinct (map fst reqs)" and "\<forall>r \<in> set reqs. fresh s u (fst r)"
  shows "colorMap (request_draws reqs s) = colorMap s \<and>
         (\<forall>k. marker_image (heap s k) = Some (icon_image e) \<longrightarrow>
              marker_image (heap (request_draws reqs s) k) = Some (icon_image e)) \<and>
         (\<forall>r \<in> set reqs. marker_image (heap (request_draws reqs s) (fst r)) = Some (icon_image e))"
  using assms
proof (induction reqs arbitrary: s e)
  case Nil
  then show ?case by (simp add: request_draws_simps)
next
  case (Cons r reqs)
  obtain m xy where r: "r = (m, xy)" by (cases r)
  let ?e1 = "e\<lparr>elements := elements e @ [(m, fst xy, snd xy)]\<rparr>"
  let ?s1 = "(set_image m (icon_image e) s)\<lparr>icons := (icons s)(u \<mapsto> ?e1)\<rparr>"
  have fm: "fresh s u m" using Cons.prems(5) by (simp add: r)
  have d: "drawMarker m xy s = (?s1, None)"
    by (rule drawMarker_pending [OF Cons.prems(1,2,3) fm])
  have i1: "icons ?s1 u = Some ?e1" by simp
  have p1: "\<not> isLoaded ?e1" "\<not> hasErrored ?e1" using Cons.prems(2,3) by simp_all
  have d1: "distinct (map fst reqs)" using Cons.prems(4) by simp
  have f1: "\<forall>r \<in> set reqs. fresh ?s1 u (fst r)"
  proof
    fix q assume q: "q \<in> set reqs"
    then have "fst q \<noteq> m" using Cons.prems(4) by (auto simp: r)
    moreover have "fresh s u (fst q)" using Cons.prems(5) q by simp
    ultimately show "fresh ?s1 u (fst q)" by (rule fresh_other [rotated])
  qed
  note IH = Cons.IH [OF i1 p1 d1 f1]
  have im: "icon_image ?e1 = icon_image e" by simp
  have c1: "colorMap ?s1 = colorMap s" by (simp add: set_image_def)
  have k1: "\<And>k. marker_image (heap s k) = Some (icon_image e) \<Longrightarrow>
                marker_image (heap ?s1 k) = Some (icon_image e)"
    by (simp add: set_image_def)
  have m1: "marker_image (heap ?s1 m) = Some (icon_image e)" by (simp add: set_image_def)
  show ?case
    using IH c1 k1 m1 by (simp add: r request_draws_simps d)
qed


text \<open>
  Claim C7. Draw requests for \<open>n\<close> distinct markers (\<open>n > 0\<close>) that hold no image yet and
  share an icon URL not seen before start one image load: the first request creates the
  image of that URL and starts its load, the others join its queue and are given the
  same image, and nothing is drawn yet. When the load completes, no other load has been
  started and all \<open>n\<close> markers are drawn, in the order of their requests: the canvas
  receives, for each of them, the draw of that marker with the image of the one load, at
  the marker's screen point and in the rectangle of its icon, with its halo and badges.
\<close>

theorem one_load_for_shared_icon:
  assumes "lmap s = Some mp" and "icons s u = None"
    and "reqs \<noteq> []" and "distinct (map fst reqs)" and "\<forall>r \<in> set reqs. fresh s u (fst r)"
  shows "loads (request_draws reqs s) = loads s @ [u] \<and>
         canvas (request_draws reqs s) = canvas s \<and>
         pending (request_draws reqs s) u \<and>
         map_option icon_image (icons (request_draws reqs s) u) = Some (HTMLImageElement u) \<and>
         (\<forall>r \<in> set reqs. marker_image (heap (request_draws reqs s) (fst r)) = Some (HTMLImageElement u)) \<and>
         snd (image_onload u (request_draws reqs s)) = None \<and>
         loads (fst (image_onload u (request_draws reqs s))) = loads s @ [u] \<and>
         map d_marker (canvas (fst (image_onload u (request_draws reqs s)))) =
           map d_marker (canvas s) @ map fst reqs \<and>
         map Some (canvas (fst (image_onload u (request_draws reqs s)))) =
           map Some (canvas s) @ map (\<lambda>r. icon_draw s mp (HTMLImageElement u) (fst r)) reqs"
proof -
  obtain m xy rest where reqs: "reqs = (m, xy) # rest"
    using assms(3) by (cases reqs) auto
  let ?img = "HTMLImageElement u"
  let ?e1 = "\<lparr> isLoaded = False, icon_image = ?img,
               elements = [(m, fst xy, snd xy)], hasErrored = False \<rparr>"
  let ?s1 = "(set_image m ?img (s\<lparr>loads := loads s @ [u]\<rparr>))\<lparr>icons := (icons s)(u \<mapsto> ?e1)\<rparr>"
  let ?s2 = "request_draws reqs s"
  have fm: "fresh s u m" using assms(5) by (simp add: reqs)
  have d: "drawMarker m xy s = (?s1, None)" by (rule drawMarker_first [OF assms(2) fm])
  have s2: "?s2 = request_draws rest ?s1" by (simp add: reqs request_draws_simps d)
  have i1: "icons ?s1 u = Some ?e1" by simp
  have d1: "distinct (map fst rest)" using assms(4) by (simp add: reqs)
  have fm': "fresh (s\<lparr>loads := loads s @ [u]\<rparr>) u m" using fm by (simp add: fresh_def)
  have f1: "\<forall>r \<in> set rest. fresh ?s1 u (fst r)"
  proof
    fix q assume q: "q \<in> set rest"
    then have "fst q \<noteq> m" using assms(4) by (auto simp: reqs)
    moreover have "fresh (s\<lparr>loads := loads s @ [u]\<rparr>) u (fst q)"
      using assms(5) q by (simp add: reqs fresh_def)
    ultimately show "fresh ?s1 u (fst q)" by (rule fresh_other [rotated])
  qed
  have P: "loads (request_draws rest ?s1) = loads ?s1 \<and>
         canvas (request_draws rest ?s1) = canvas ?s1 \<and>
         lmap (request_draws rest ?s1) = lmap ?s1 \<and>
         icons (request_draws rest ?s1) u =
           Some (?e1\<lparr>elements := elements ?e1 @ map (\<lambda>r. (fst r, fst (snd r), snd (snd r))) rest\<rparr>) \<and>
         (\<forall>k. drawable ?s1 k \<longrightarrow> drawable (request_draws rest ?s1) k) \<and>
         (\<forall>r \<in> set rest. drawable (request_draws rest ?s1) (fst r))"
    by (rule request_draws_pending [OF i1 _ _ d1 f1]) simp_all
  have Q: "colorMap (request_draws rest ?s1) = colorMap ?s1 \<and>
         (\<forall>k. marker_image (heap ?s1 k) = Some (icon_image ?e1) \<longrightarrow>
              marker_image (heap (request_draws rest ?s1) k) = Some (icon_image ?e1)) \<and>
         (\<forall>r \<in> set rest. marker_image (heap (request_draws rest ?s1) (fst r)) = Some (icon_image ?e1))"
    by (rule request_draws_pending_images [OF i1 _ _ d1 f1]) simp_all
  let ?e2 = "?e1\<lparr>elements := elements ?e1 @ map (\<lambda>r. (fst r, fst (snd r), snd (snd r))) rest\<rparr>"
  have l2: "loads ?s2 = loads s @ [u]" using P by (simp add: s2 set_image_def)
  have c2: "canvas ?s2 = canvas s" using P by (simp add: s2 set_image_def)
  have m2: "lmap ?s2 = Some mp" using P assms(1) by (simp add: s2 set_image_def)
  have i2: "icons ?s2 u = Some ?e2" using P by (simp add: s2)
  have p2: "pending ?s2 u" by (simp add: pending_def i2)
  have ii: "map_option icon_image (icons ?s2 u) = Some ?img" by (simp add: i2)
  have dm: "drawable ?s1 m" by (rule fresh_drawable_after [OF fm'])
  have im1: "marker_image (heap ?s1 m) = Some ?img" by (simp add: set_image_def)
  have el: "map fst (elements ?e2) = map fst reqs" by (simp add: reqs comp_def)
  have dr: "\<forall>q \<in> set (elements ?e2). drawable ?s2 (fst q)"
    using P dm by (auto simp: s2)
  have q2: "marker_image (heap (request_draws rest ?s1) m) = Some ?img"
    using Q im1 by simp
  have q3: "\<forall>r \<in> set rest. marker_image (heap (request_draws rest ?s1) (fst r)) = Some ?img"
    using Q by simp
  have ims: "\<forall>r \<in> set reqs. marker_image (heap ?s2 (fst r)) = Some ?img"
    unfolding s2 using q2 q3 by (simp add: reqs)
  have dri: "\<forall>q \<in> set (elements ?e2). drawable ?s2 (fst q) \<and> marker_image (heap ?s2 (fst q)) = Some ?img"
  proof
    fix q assume q: "q \<in> set (elements ?e2)"
    have "fst q \<in> set (map fst (elements ?e2))" using q by (simp only: list.set_map image_eqI)
    then have "fst q \<in> set (map fst reqs)" by (simp only: el)
    then obtain r where r: "r \<in> set reqs" "fst q = fst r" by (auto simp only: list.set_map)
    have "marker_image (heap ?s2 (fst r)) = Some ?img" using ims r(1) by (rule bspec)
    then have "marker_image (heap ?s2 (fst q)) = Some ?img" by (simp only: r(2))
    moreover have "drawable ?s2 (fst q)" using dr q by (rule bspec)
    ultimately show "drawable ?s2 (fst q) \<and> marker_image (heap ?s2 (fst q)) = Some ?img" by (rule conjI [rotated])
  qed
  note fl = image_onload_icon_draws [OF m2 i2 dri]
  have sn: "snd (image_onload u ?s2) = None" using fl by (rule conjunct1)
  have l3': "loads (fst (image_onload u ?s2)) = loads ?s2" using fl by (rule conjunct1 [OF conjunct2])
  have cv: "map Some (canvas (fst (image_onload u ?s2))) =
           map Some (canvas ?s2) @ map (\<lambda>q. icon_draw ?s2 mp ?img (fst q)) (elements ?e2)"
    using fl by (rule conjunct2 [OF conjunct2])
  have cm: "colorMap ?s2 = colorMap s" using Q by (simp add: s2 set_image_def)
  have hc: "halo_colour ?s2 u = halo_colour s u"
    by (simp add: halo_colour_def memo_colour_def cm)
  note H = request_draws_heap [of reqs s]
  have id: "\<And>k. icon_draw ?s2 mp ?img k = icon_draw s mp ?img k"
    by (rule icon_draw_cong) (simp_all add: H hc)
  have "map (\<lambda>q. icon_draw s mp ?img (fst q)) (elements ?e2) =
        map (icon_draw s mp ?img) (map fst (elements ?e2))"
    by (simp only: map_map o_def)
  also have "\<dots> = map (icon_draw s mp ?img) (map fst reqs)" by (simp only: el)
  also have "\<dots> = map (\<lambda>r. icon_draw s mp ?img (fst r)) reqs" by (simp only: map_map o_def)
  finally have me: "map (\<lambda>q. icon_draw s mp ?img (fst q)) (elements ?e2) =
        map (\<lambda>r. icon_draw s mp ?img (fst r)) reqs" .
  have full: "map Some (canvas (fst (image_onload u ?s2))) =
        map Some (canvas s) @ map (\<lambda>r. icon_draw s mp ?img (fst r)) reqs"
    using cv by (simp only: id me c2)
  note fl0 = image_onload_flushes [OF m2 i2 dr]
  have "map fst (map (\<lambda>d. (d_marker d, d_at d)) (canvas (fst (image_onload u ?s2)))) =
        map fst (map (\<lambda>d. (d_marker d, d_at d)) (canvas ?s2) @
           map (\<lambda>q. (fst q, latLngToContainerPoint mp (latLng (heap ?s2 (fst q))))) (elements ?e2))"
    by (rule arg_cong [OF conjunct2 [OF fl0]])
  then have "map d_marker (canvas (fst (image_onload u ?s2))) =
        map d_marker (canvas ?s2) @ map fst (elements ?e2)"
    by (simp only: map_map map_append o_def fst_conv)
  then have mkr: "map d_marker (canvas (fst (image_onload u ?s2))) = map d_marker (canvas s) @ map fst reqs"
    by (simp only: c2 el)
  have l3: "loads (fst (image_onload u ?s2)) = loads s @ [u]" by (simp only: l3' l2)
  show ?thesis by (intro conjI l2 c2 p2 ii ims sn l3 mkr full)
qed


text \<open>
  Three markers share \<open>a.png\<close>: one load, and after it three draws of that image, each
  in the rectangle (-16, -16, 32, 32) of the icon; with \<open>addBackground\<close> set, each draw
  has the halo of \<open>a.png\<close>.
\<close>

theorem one_load_for_shared_icon_witness:
  "loads (request_draws [(2, (50, 50)), (3, (60, 60)), (4, (500, - 400))] ex_attached) = [''a.png'']
   \<and> canvas (request_draws [(2, (50, 50)), (3, (60, 60)), (4, (500, - 400))] ex_attached) = []
   \<and> loads (fst (image_onload ''a.png''
         (request_draws [(2, (50, 50)), (3, (60, 60)), (4, (500, - 400))] ex_attached))) = [''a.png'']
   \<and> canvas (fst (image_onload ''a.png''
         (request_draws [(2, (50, 50)), (3, (60, 60)), (4, (500, - 400))] ex_attached))) =
       [\<lparr> d_marker = 2, d_at = (50, 50), d_halo = None, d_image = HTMLImageElement ''a.png'',
           d_rect = (- 16, - 16, 32, 32), d_badges = [] \<rparr>,
        \<lparr> d_marker = 3, d_at = (60, 60), d_halo = None, d_image = HTMLImageElement ''a.png'',
           d_rect = (- 16, - 16, 32, 32), d_badges = [] \<rparr>,
        \<lparr> d_marker = 4, d_at = (500, - 400), d_halo = None, d_image = HTMLImageElement ''a.png'',
           d_rect = (- 16, - 16, 32, 32), d_badges = [] \<rparr>]
   \<and> canvas (fst (image_onload ''a.png''
         (request_draws [(2, (50, 50)), (3, (60, 60))] (ex_attached\<lparr>addBackground := True\<rparr>)))) =
       [\<lparr> d_marker = 2, d_at = (50, 50), d_halo = Some (''#1c836d'', 32 / 1.5),
           d_image = HTMLImageElement ''a.png'', d_rect = (- 16, - 16, 32, 32), d_badges = [] \<rparr>,
        \<lparr> d_marker = 3, d_at = (60, 60), d_halo = Some (''#1c836d'', 32 / 1.5),
           d_image = HTMLImageElement ''a.png'', d_rect = (- 16, - 16, 32, 32), d_badges = [] \<rparr>]"
  using one_load_for_shared_icon [of ex_attached view0 "''a.png''" "[(2, (50, 50)), (3, (60, 60)), (4, (500, - 400))]"]
    one_load_for_shared_icon [of "ex_attached\<lparr>addBackground := True\<rparr>" view0 "''a.png''" "[(2, (50, 50)), (3, (60, 60))]"]
  by (simp add: fixture_defs fresh_def icon_draw_def request_draws_def engine_defs hexcode_a_png)


section \<open>Requests for a marker that already holds its image\<close>

text \<open>
  Claim C3 says that a draw request made while the icon's image is pending draws nothing
  and is queued. The second branch of \<open>_drawMarker\<close> does so, for a marker without an
  image. The first branch does not ask whether the image has loaded: a marker that was
  given the pending image by an earlier request is passed to \<open>_drawImage\<close> at once, and
  its request is not queued. Below, markers 2 and 3 wait for \<open>a.png\<close>; a second request for
  marker 2, or the redraw after the map has moved, draws them while the image is pending.
\<close>

theorem drawMarker_draws_while_pending:
  "pending ex_queued ''a.png''
   \<and> canvas ex_queued = []
   \<and> map_option elements (icons ex_queued ''a.png'') = Some [(2, 50, 50), (3, 60, 60)]
   \<and> map (\<lambda>d. (d_marker d, d_at d)) (canvas (fst (drawMarker 2 (30, 50) ex_queued))) = [(2, (30, 50))]
   \<and> icons (fst (drawMarker 2 (30, 50) ex_queued)) = icons ex_queued
   \<and> map (\<lambda>d. (d_marker d, d_at d, d_halo d))
         (canvas (run [OnAdd view0, AddMarkers [2, 3], MoveEnd view1] (init True heap0))) =
       [(2, (30, 50), Some (''#1c836d'', 32 / 1.5)), (3, (40, 60), Some (''#1c836d'', 32 / 1.5))]
   \<and> pending (run [OnAdd view0, AddMarkers [2, 3], MoveEnd view1] (init True heap0)) ''a.png''"
  by (simp add: run_def pending_def reset_def ex_queued_def fixture_defs engine_defs hexcode_a_png)

text \<open>
  Claim C4 says that no marker of a URL whose load fails is ever drawn, before or after
  the failure. After the failure both branches return early. Before it, the same first
  branch draws: markers 2 and 3 are on the canvas, each with its halo, when the load of
  \<open>a.png\<close> fails; one diagnostic is logged, and the next redraw draws nothing.
\<close>

theorem drawn_before_load_failure:
  "map (\<lambda>d. (d_marker d, d_halo d))
     (canvas (run [OnAdd view0, AddMarkers [2, 3], MoveEnd view1, ImageError ''a.png'']
         (init True heap0))) =
     [(2, Some (''#1c836d'', 32 / 1.5)), (3, Some (''#1c836d'', 32 / 1.5))]
   \<and> console (run [OnAdd view0, AddMarkers [2, 3], MoveEnd view1, ImageError ''a.png'']
         (init True heap0)) = [ImageNotLoaded ''a.png'']
   \<and> canvas (run [OnAdd view0, AddMarkers [2, 3], MoveEnd view1, ImageError ''a.png'', MoveEnd view0]
         (init True heap0)) = []"
  by (simp add: run_def pending_def reset_def fixture_defs engine_defs hexcode_a_png)

section \<open>Rebuilding the screen index\<close>

lemma intersects_position:
  "intersects (mapBoundsBox bnd) (positionBox_of m p) = contains bnd p"
  by (auto simp: intersects_def mapBoundsBox_def positionBox_of_def contains_def)

lemma drawImage_canvas:
  "snd (drawImage m xy s) = None \<Longrightarrow> map d_marker (canvas (fst (drawImage m xy s))) = map d_marker (canvas s) @ [m]"
  "snd (drawImage m xy s) \<noteq> None \<Longrightarrow> canvas (fst (drawImage m xy s)) = canvas s"
  by (auto simp: drawImage_def Let_def split: option.splits)

lemma drawImage_requested:
  "snd (drawImage m xy s) = None \<Longrightarrow> draw_requested (fst (drawImage m xy s)) m"
  using drawImage_canvas(1) [of m xy s]
  by (simp add: draw_requested_def) (metis in_set_conv_decomp list.set_map)

lemma drawImage_keeps_requested:
  "draw_requested s k \<Longrightarrow> draw_requested (fst (drawImage m xy s)) k"
proof -
  assume a: "draw_requested s k"
  have c: "set (map d_marker (canvas s)) \<subseteq> set (map d_marker (canvas (fst (drawImage m xy s))))"
    using drawImage_canvas [of m xy s] by (cases "snd (drawImage m xy s)") auto
  show ?thesis
    using a c by (auto simp: draw_requested_def drawImage_frame cong: option.case_cong)
qed


lemma set_image_requested:
  "draw_requested s k \<Longrightarrow> draw_requested (set_image m img s) k"
  by (auto simp: draw_requested_def set_image_def cong: option.case_cong)

lemma drawMarker_keeps_requested:
  "draw_requested s k \<Longrightarrow> draw_requested (fst (drawMarker m xy s)) k"
proof -
  assume a: "draw_requested s k"
  have b: "\<And>img. draw_requested (fst (drawImage m xy (set_image m img s))) k"
    by (rule drawImage_keeps_requested [OF set_image_requested [OF a]])
  have c: "\<And>u e img. icons s u = Some e \<Longrightarrow>
      draw_requested ((set_image m img s)\<lparr>icons := (icons (set_image m img s))(u \<mapsto>
                                 e\<lparr>elements := elements e @ [(m, fst xy, snd xy)]\<rparr>)\<rparr>) k"
    using a by (auto simp: draw_requested_def set_image_def split: option.splits)
  have d: "\<And>u e img. icons s u = None \<Longrightarrow>
      draw_requested ((set_image m img (s\<lparr>loads := loads s @ [u]\<rparr>))\<lparr>icons := (icons (set_image m img (s\<lparr>loads := loads s @ [u]\<rparr>)))(u \<mapsto> e)\<rparr>) k"
    using a by (auto simp: draw_requested_def set_image_def split: option.splits)
  show ?thesis
    using a b c d drawImage_keeps_requested [OF a, of m xy]
    by (simp add: drawMarker_def Let_def split: option.splits)
qed

lemma draw_requested_queued:
  assumes "icon (options (heap s m)) = Some io" and "iconUrl io = Some url"
    and "icons s url = Some e" and "hasErrored e \<or> (\<not> isLoaded e \<and> m \<in> fst ` set (elements e))"
  shows "draw_requested s m"
  using assms by (simp add: draw_requested_def)

lemma drawMarker_requested:
  "snd (drawMarker m xy s) = None \<Longrightarrow> draw_requested (fst (drawMarker m xy s)) m"
proof -
  assume r: "snd (drawMarker m xy s) = None"
  show ?thesis
  proof (cases "icon (options (heap s m))")
    case None
    then show ?thesis using r by (simp add: drawMarker_def)
  next
    case (Some io)
    show ?thesis
    proof (cases "iconUrl io")
      case None
      then show ?thesis using r Some by (simp add: drawMarker_def)
    next
      case u: (Some url)
      note q = draw_requested_queued [where io = io and url = url and m = m]
      show ?thesis
      proof (cases "marker_image (heap s m)")
        case img: (Some img)
        show ?thesis
        proof (cases "icons s url")
          case None
          then show ?thesis
            using r Some u img drawImage_requested [of m xy s] by (simp add: drawMarker_def)
        next
          case e: (Some e)
          show ?thesis
          proof (cases "hasErrored e")
            case True
            then show ?thesis
              using Some u img e q [of s e] by (simp add: drawMarker_def)
          next
            case False
            then show ?thesis
              using r Some u img e drawImage_requested [of m xy s] by (simp add: drawMarker_def)
          qed
        qed
      next
        case img: None
        show ?thesis
        proof (cases "icons s url")
          case None
          let ?e = "\<lparr> isLoaded = False, icon_image = HTMLImageElement url,
                      elements = [(m, fst xy, snd xy)], hasErrored = False \<rparr>"
          let ?s1 = "set_image m (HTMLImageElement url) (s\<lparr>loads := loads s @ [url]\<rparr>)"
          have "draw_requested (?s1\<lparr>icons := (icons ?s1)(url \<mapsto> ?e)\<rparr>) m"
            by (rule q [of _ ?e]) (simp_all add: set_image_def Some u)
          then show ?thesis
            using Some u img None by (simp add: drawMarker_def Let_def)
        next
          case e: (Some e)
          let ?s1 = "set_image m (icon_image e) s"
          show ?thesis
          proof (cases "hasErrored e")
            case True
            then show ?thesis
              using Some u img e q [of s e] by (simp add: drawMarker_def)
          next
            case ne: False
            show ?thesis
            proof (cases "isLoaded e")
              case True
              then show ?thesis
                using r Some u img e ne drawImage_requested [of m xy ?s1]
                by (simp add: drawMarker_def Let_def)
            next
              case False
              let ?e = "e\<lparr>elements := elements e @ [(m, fst xy, snd xy)]\<rparr>"
              have "draw_requested (?s1\<lparr>icons := (icons ?s1)(url \<mapsto> ?e)\<rparr>) m"
                by (rule q [of _ ?e]) (simp_all add: set_image_def Some u False)
              then show ?thesis
                using Some u img e ne False by (simp add: drawMarker_def Let_def)
            qed
          qed
        qed
      qed
    qed
  qed
qed

lemma drawMarker_canvas_markers:
  "set (map d_marker (canvas (fst (drawMarker m xy s)))) \<subseteq> insert m (set (map d_marker (canvas s)))"
proof -
  have a: "\<And>s' :: state. canvas s' = canvas s \<Longrightarrow>
     set (map d_marker (canvas (fst (drawImage m xy s')))) \<subseteq> insert m (set (map d_marker (canvas s)))"
  proof -
    fix s' :: state assume c: "canvas s' = canvas s"
    show "set (map d_marker (canvas (fst (drawImage m xy s')))) \<subseteq> insert m (set (map d_marker (canvas s)))"
      using drawImage_canvas [of m xy s'] c by (cases "snd (drawImage m xy s')") auto
  qed
  have b: "\<And>img. canvas (set_image m img s) = canvas s" by (simp add: set_image_def)
  show ?thesis
    using a [of s] a [OF b] by (auto simp: drawMarker_def Let_def set_image_def split: option.splits)
qed


lemma screen_box_cong:
  "latLng (heap s' m) = latLng (heap s m) \<Longrightarrow> options (heap s' m) = options (heap s m) \<Longrightarrow>
   screen_box mp s' m = screen_box mp s m"
  by (simp add: screen_box_def cong: option.case_cong)

lemma redraw_loop_ok:
  assumes "snd (snd (redraw_loop mp bs acc s)) = None"
  shows "map Some (fst (redraw_loop mp bs acc s)) =
           map Some acc @ map (\<lambda>b. screen_box mp s (marker b)) bs \<and>
         (\<forall>k. draw_requested s k \<longrightarrow> draw_requested (fst (snd (redraw_loop mp bs acc s))) k) \<and>
         (\<forall>b \<in> set bs. draw_requested (fst (snd (redraw_loop mp bs acc s))) (marker b)) \<and>
         set (map d_marker (canvas (fst (snd (redraw_loop mp bs acc s))))) \<subseteq>
           set (map d_marker (canvas s)) \<union> marker ` set bs"
  using assms
proof (induction bs arbitrary: acc s)
  case Nil
  then show ?case by simp
next
  case (Cons b bs)
  let ?m = "marker b"
  let ?xy = "latLngToContainerPoint mp (latLng (heap s ?m))"
  obtain io where io: "icon (options (heap s ?m)) = Some io"
    using Cons.prems by (cases "icon (options (heap s ?m))") (simp_all add: Let_def)
  obtain sz where sz: "iconSize io = Some sz"
    using Cons.prems io by (cases "iconSize io") (simp_all add: Let_def)
  obtain anchor where an: "iconAnchor io = Some anchor"
    using Cons.prems io sz by (cases "iconAnchor io") (simp_all add: Let_def)
  obtain s1 r where d: "drawMarker ?m ?xy s = (s1, r)" by (cases "drawMarker ?m ?xy s")
  have r: "r = None"
    using Cons.prems io sz an d by (cases r) (simp_all add: Let_def)
  let ?acc1 = "acc @ [markerBox_of ?m ?xy anchor sz]"
  have step: "redraw_loop mp (b # bs) acc s = redraw_loop mp bs ?acc1 s1"
    by (simp add: Let_def io sz an d r)
  have ok1: "snd (snd (redraw_loop mp bs ?acc1 s1)) = None"
    using Cons.prems by (simp only: step)
  note IH = Cons.IH [OF ok1]
  have hp: "\<And>k. latLng (heap s1 k) = latLng (heap s k)" "\<And>k. options (heap s1 k) = options (heap s k)"
    using drawMarker_heap(1,2) [of ?m ?xy s] d by simp_all
  have sb: "\<And>k. screen_box mp s1 k = screen_box mp s k"
    by (rule screen_box_cong [OF hp])
  have b0: "screen_box mp s ?m = Some (markerBox_of ?m ?xy anchor sz)"
    by (simp add: screen_box_def io sz an)
  have rq: "draw_requested s1 ?m"
    using drawMarker_requested [of ?m ?xy s] d r by simp
  have kp: "\<And>k. draw_requested s k \<Longrightarrow> draw_requested s1 k"
    using drawMarker_keeps_requested [of s _ ?m ?xy] d by simp
  have cv: "set (map d_marker (canvas s1)) \<subseteq> insert ?m (set (map d_marker (canvas s)))"
    using drawMarker_canvas_markers [of ?m ?xy s] d by simp
  let ?r = "redraw_loop mp bs ?acc1 s1"
  have c1: "map Some (fst ?r) = map Some acc @ map (\<lambda>b. screen_box mp s (marker b)) (b # bs)"
    using IH by (simp add: sb b0)
  have c2: "\<forall>k. draw_requested s k \<longrightarrow> draw_requested (fst (snd ?r)) k"
    using IH kp by blast
  have c3: "\<forall>b' \<in> set (b # bs). draw_requested (fst (snd ?r)) (marker b')"
    using IH rq by simp
  have "set (map d_marker (canvas (fst (snd ?r)))) \<subseteq> set (map d_marker (canvas s1)) \<union> marker ` set bs"
    using IH by blast
  then have c4: "set (map d_marker (canvas (fst (snd ?r)))) \<subseteq>
      set (map d_marker (canvas s)) \<union> marker ` set (b # bs)"
    using cv by auto
  show ?case
    unfolding step using c1 c2 c3 c4 by blast
qed

lemma search_positions:
  assumes "\<forall>b \<in> set t. b = positionBox_of (marker b) (latLng (heap s (marker b)))"
  shows "search (mapBoundsBox bnd) t = filter (\<lambda>b. contains bnd (latLng (heap s (marker b)))) t"
proof -
  have "\<And>b. b \<in> set t \<Longrightarrow> intersects (mapBoundsBox bnd) b = contains bnd (latLng (heap s (marker b)))"
    using assms intersects_position by metis
  then show ?thesis by (simp add: search_def cong: filter_cong)
qed

lemma screen_box_marker: "screen_box mp s m = Some b \<Longrightarrow> marker b = m"
  by (auto simp: screen_box_def markerBox_of_def split: option.splits)

lemma map_Some_eq:
  "map Some xs = map f ys \<Longrightarrow> (\<And>y b. f y = Some b \<Longrightarrow> g b = h y) \<Longrightarrow> map g xs = map h ys"
proof (induction xs arbitrary: ys)
  case Nil
  then show ?case by simp
next
  case (Cons x xs)
  then obtain y ys' where ys: "ys = y # ys'" by (cases ys) auto
  have "f y = Some x" "map Some xs = map f ys'" using Cons.prems(1) by (simp_all add: ys)
  then show ?case using Cons.IH [of ys'] Cons.prems(2) by (simp add: ys)
qed

lemma ex_loaded_fields:
  "lmap ex_loaded = Some view0"
  "positionsTree ex_loaded =
     [positionBox_of 2 \<lparr>lat = 5, lng = 5\<rparr>, positionBox_of 3 \<lparr>lat = 4, lng = 6\<rparr>,
      positionBox_of 4 \<lparr>lat = 50, lng = 50\<rparr>]"
  "latLng (heap ex_loaded 2) = \<lparr>lat = 5, lng = 5\<rparr>"
  "latLng (heap ex_loaded 3) = \<lparr>lat = 4, lng = 6\<rparr>"
  "latLng (heap ex_loaded 4) = \<lparr>lat = 50, lng = 50\<rparr>"
  by (simp_all add: ex_loaded_def ex_added_def fixture_defs engine_defs)

lemma ex_loaded_redraw:
  "redraw True (ex_loaded\<lparr>lmap := Some view1\<rparr>) =
     (ex_loaded\<lparr>lmap := Some view1,
        canvas := [\<lparr> d_marker = 2, d_at = (30, 50), d_halo = None, d_image = HTMLImageElement ''a.png'',
                     d_rect = (- 16, - 16, 32, 32), d_badges = [] \<rparr>,
                   \<lparr> d_marker = 3, d_at = (40, 60), d_halo = None, d_image = HTMLImageElement ''a.png'',
                     d_rect = (- 16, - 16, 32, 32), d_badges = [] \<rparr>],
        markersTree := [\<lparr> minX = 14, minY = 34, maxX = 46, maxY = 66, marker = 2 \<rparr>,
                        \<lparr> minX = 24, minY = 44, maxX = 56, maxY = 76, marker = 3 \<rparr>]\<rparr>, None)"
  by (simp add: ex_loaded_def ex_added_def fixture_defs engine_defs)

text \<open>
  Claim C5, as amended. Let a map be attached, let the position index hold each marker
  at the marker's position, and let \<open>redraw(true)\<close> return without an exception. Then the
  screen index holds exactly the screen boxes of the markers of the position index whose
  position lies in the map's bounds, one per item of the position index and in its
  order, and nothing else: what an earlier redraw left there is gone. Every entry belongs
  to a marker whose draw this redraw requested: it is on the canvas, or queued for its
  pending icon, or dropped because its icon failed. Everything on the canvas belongs to
  a marker with an entry.
\<close>

theorem redraw_rebuilds_screen_index:
  assumes "lmap s = Some mp" and "snd (redraw True s) = None"
    and "\<forall>b \<in> set (positionsTree s). b = positionBox_of (marker b) (latLng (heap s (marker b)))"
  shows "map Some (markersTree (fst (redraw True s))) =
           map (screen_box mp s)
             (filter (\<lambda>m. contains (getMapBounds mp) (latLng (heap s m))) (map marker (positionsTree s))) \<and>
         (\<forall>b \<in> set (markersTree (fst (redraw True s))). draw_requested (fst (redraw True s)) (marker b)) \<and>
         set (map d_marker (canvas (fst (redraw True s)))) \<subseteq>
           set (map marker (markersTree (fst (redraw True s))))"
proof -
  let ?s0 = "s\<lparr>canvas := []\<rparr>"
  let ?found = "search (mapBoundsBox (getMapBounds mp)) (positionsTree s)"
  obtain markers s1 r where l: "redraw_loop mp ?found [] ?s0 = (markers, s1, r)"
    by (cases "redraw_loop mp ?found [] ?s0")
  have r: "r = None" using assms(1,2) l by (cases r) (simp_all add: redraw_def)
  have rd: "redraw True s = (s1\<lparr>markersTree := markers\<rparr>, None)"
    using assms(1) l r by (simp add: redraw_def load_def)
  have ok: "snd (snd (redraw_loop mp ?found [] ?s0)) = None" by (simp add: l r)
  have sb: "\<And>k. screen_box mp ?s0 k = screen_box mp s k" by (rule screen_box_cong) simp_all
  have L1: "map Some markers = map (\<lambda>b. screen_box mp s (marker b)) ?found"
    and L3: "\<forall>b \<in> set ?found. draw_requested s1 (marker b)"
    and L4: "set (map d_marker (canvas s1)) \<subseteq> marker ` set ?found"
    using redraw_loop_ok [OF ok] by (simp_all add: l sb)
  have f: "?found = filter (\<lambda>b. contains (getMapBounds mp) (latLng (heap s (marker b)))) (positionsTree s)"
    using search_positions [OF assms(3), of "getMapBounds mp"] by simp
  have a: "map Some markers =
           map (screen_box mp s)
             (filter (\<lambda>m. contains (getMapBounds mp) (latLng (heap s m))) (map marker (positionsTree s)))"
    using L1 by (simp add: f filter_map comp_def)
  have mk: "map marker markers = map marker ?found"
    by (rule map_Some_eq [OF L1]) (rule screen_box_marker)
  then have mks: "marker ` set markers = marker ` set ?found"
    by (metis list.set_map)
  have dr: "\<And>k. draw_requested (s1\<lparr>markersTree := markers\<rparr>) k = draw_requested s1 k"
    by (simp add: draw_requested_def cong: option.case_cong)
  have b: "\<forall>b \<in> set markers. draw_requested (s1\<lparr>markersTree := markers\<rparr>) (marker b)"
  proof
    fix b assume "b \<in> set markers"
    then have "marker b \<in> marker ` set ?found" using mks by blast
    then show "draw_requested (s1\<lparr>markersTree := markers\<rparr>) (marker b)"
      using L3 by (auto simp: dr)
  qed
  have c: "set (map d_marker (canvas s1)) \<subseteq> set (map marker markers)"
    using L4 mks by simp
  show ?thesis using a b c by (simp add: rd)
qed

theorem redraw_rebuilds_screen_index_witness:
  "markersTree (fst (redraw True (ex_loaded\<lparr>lmap := Some view1\<rparr>))) =
     [\<lparr> minX = 14, minY = 34, maxX = 46, maxY = 66, marker = 2 \<rparr>,
      \<lparr> minX = 24, minY = 44, maxX = 56, maxY = 76, marker = 3 \<rparr>]
   \<and> map marker (positionsTree ex_loaded) = [2, 3, 4]
   \<and> map d_marker (canvas (fst (redraw True (ex_loaded\<lparr>lmap := Some view1\<rparr>)))) = [2, 3]
   \<and> draw_requested (fst (redraw True (ex_loaded\<lparr>lmap := Some view1\<rparr>))) 2
   \<and> draw_requested (fst (redraw True (ex_loaded\<lparr>lmap := Some view1\<rparr>))) 3"
proof -
  let ?s = "ex_loaded\<lparr>lmap := Some view1\<rparr>"
  have a: "lmap ?s = Some view1" by simp
  have b: "snd (redraw True ?s) = None" by (simp add: ex_loaded_redraw)
  have c: "\<forall>b \<in> set (positionsTree ?s). b = positionBox_of (marker b) (latLng (heap ?s (marker b)))"
    by (simp add: ex_loaded_fields positionBox_of_def)
  show ?thesis
    using redraw_rebuilds_screen_index [OF a b c]
    by (simp add: ex_loaded_redraw ex_loaded_fields positionBox_of_def)
qed

text \<open>
  The claim as it was stated also says that entries exist only for markers drawn in the
  redraw. After the image of \<open>a.png\<close> has failed, \<open>redraw(true)\<close> draws nothing and still
  enters the boxes of markers 2 and 3.
\<close>

theorem redraw_indexes_undrawn_markers:
  "map marker (markersTree (run [OnAdd view0, AddMarkers [2, 3, 4], ImageError ''a.png'', Redraw True]
       (init False heap0))) = [2, 3]
   \<and> canvas (run [OnAdd view0, AddMarkers [2, 3, 4], ImageError ''a.png'', Redraw True]
       (init False heap0)) = []
   \<and> canvas (run [OnAdd view0, AddMarkers [2, 3, 4], ImageError ''a.png'']
       (init False heap0)) = []"
  by (simp add: run_def pending_def fixture_defs engine_defs)

section \<open>The position index and the registered markers\<close>

lemma valid_marker_cong:
  "options (heap s' m) = options (heap s m) \<Longrightarrow> valid_marker s' m = valid_marker s m"
  by (simp add: valid_marker_def)

lemma valid_drawable:
  "valid_marker s m \<Longrightarrow> marker_image (heap s m) \<noteq> None \<Longrightarrow> drawable s m"
  by (auto simp: valid_marker_def drawable_def split: option.splits)

lemma valid_drawable_set_image:
  "valid_marker s m \<Longrightarrow> drawable (set_image m img s) m"
  by (auto simp: valid_marker_def drawable_def set_image_def split: option.splits)

lemma drawMarker_valid:
  assumes "valid_marker s m"
  shows "snd (drawMarker m xy s) = None"
proof -
  have a: "marker_image (heap s m) \<noteq> None \<Longrightarrow> snd (drawImage m xy s) = None"
    using valid_drawable [OF assms] drawImage_drawable(1) by blast
  have b: "\<And>img. snd (drawImage m xy (set_image m img s)) = None"
    using valid_drawable_set_image [OF assms] drawImage_drawable(1) by blast
  obtain io u where "icon (options (heap s m)) = Some io" "iconUrl io = Some u"
    using assms by (auto simp: valid_marker_def split: option.splits)
  then show ?thesis
    using a b by (auto simp: drawMarker_def Let_def split: option.splits)
qed

lemma addMarker_valid:
  assumes "lmap s = Some mp" and "valid_marker s m"
  shows "\<exists>s1 r. addMarker m s = (s1, Inr r) \<and>
           positionBox r = Some (positionBox_of m (latLng (heap s m))) \<and>
           layers s1 = AList.update m m (layers s) \<and>
           lmap s1 = lmap s \<and> positionsTree s1 = positionsTree s \<and>
           (\<forall>k. options (heap s1 k) = options (heap s k)) \<and>
           (\<forall>k. latLng (heap s1 k) = latLng (heap s k))"
proof -
  obtain io an sz where io: "icon (options (heap s m)) = Some io" "iconAnchor io = Some an" "iconSize io = Some sz"
    and pn: "pane (options (heap s m)) = ''markerPane''"
    using assms(2) by (auto simp: valid_marker_def split: option.splits)
  let ?xy = "latLngToContainerPoint mp (latLng (heap s m))"
  obtain s1 r where d: "drawMarker m ?xy s = (s1, r)" by (cases "drawMarker m ?xy s")
  have r: "r = None" using drawMarker_valid [OF assms(2), of ?xy] d by simp
  have fr: "lmap s1 = lmap s" "layers s1 = layers s" "positionsTree s1 = positionsTree s"
    "\<And>k. options (heap s1 k) = options (heap s k)" "\<And>k. latLng (heap s1 k) = latLng (heap s k)"
    using drawMarker_frame(1,3,5) [of m ?xy s] drawMarker_heap(1,2) [of m ?xy s] d by simp_all
  show ?thesis
    using fr by (simp add: addMarker_def assms(1) io pn Let_def d r)
qed


lemma addMarker_valid_fields:
  assumes "lmap s = Some mp" and "valid_marker s m"
  shows "(case snd (addMarker m s) of Inl e \<Rightarrow> None | Inr r \<Rightarrow> positionBox r) =
           Some (positionBox_of m (latLng (heap s m)))"
    and "layers (fst (addMarker m s)) = AList.update m m (layers s)"
    and "lmap (fst (addMarker m s)) = lmap s"
    and "positionsTree (fst (addMarker m s)) = positionsTree s"
    and "options (heap (fst (addMarker m s)) k) = options (heap s k)"
    and "latLng (heap (fst (addMarker m s)) k) = latLng (heap s k)"
proof -
  obtain s1 r where a: "addMarker m s = (s1, Inr r)"
    and pb: "positionBox r = Some (positionBox_of m (latLng (heap s m)))"
    and fr: "layers s1 = AList.update m m (layers s)" "lmap s1 = lmap s" "positionsTree s1 = positionsTree s"
      "\<forall>k. options (heap s1 k) = options (heap s k)" "\<forall>k. latLng (heap s1 k) = latLng (heap s k)"
    using addMarker_valid [OF assms] by blast
  show "(case snd (addMarker m s) of Inl e \<Rightarrow> None | Inr r \<Rightarrow> positionBox r) =
           Some (positionBox_of m (latLng (heap s m)))" by (simp add: a pb)
  show "layers (fst (addMarker m s)) = AList.update m m (layers s)" by (simp add: a fr)
  show "lmap (fst (addMarker m s)) = lmap s" by (simp add: a fr)
  show "positionsTree (fst (addMarker m s)) = positionsTree s" by (simp add: a fr)
  show "options (heap (fst (addMarker m s)) k) = options (heap s k)" by (simp add: a fr)
  show "latLng (heap (fst (addMarker m s)) k) = latLng (heap s k)" by (simp add: a fr)
qed

lemma addMarkers_loop_valid:
  assumes "lmap s = Some mp" and "\<forall>m \<in> set ms. valid_marker s m"
  shows "fst (snd (addMarkers_loop ms mb pb s)) = pb @ map (\<lambda>m. positionBox_of m (latLng (heap s m))) ms \<and>
         snd (snd (snd (addMarkers_loop ms mb pb s))) = None \<and>
         layers (fst (snd (snd (addMarkers_loop ms mb pb s)))) =
           foldl (\<lambda>l m. AList.update m m l) (layers s) ms \<and>
         lmap (fst (snd (snd (addMarkers_loop ms mb pb s)))) = lmap s \<and>
         positionsTree (fst (snd (snd (addMarkers_loop ms mb pb s)))) = positionsTree s \<and>
         (\<forall>k. options (heap (fst (snd (snd (addMarkers_loop ms mb pb s)))) k) = options (heap s k)) \<and>
         (\<forall>k. latLng (heap (fst (snd (snd (addMarkers_loop ms mb pb s)))) k) = latLng (heap s k))"
  using assms
proof (induction ms arbitrary: mb pb s)
  case Nil
  then show ?case by simp
next
  case (Cons m ms)
  have vm: "valid_marker s m" using Cons.prems(2) by simp
  note F = addMarker_valid_fields [OF Cons.prems(1) vm]
  obtain s1 q where a: "addMarker m s = (s1, q)" by (cases "addMarker m s")
  obtain r where q: "q = Inr r" and pb: "positionBox r = Some (positionBox_of m (latLng (heap s m)))"
    using F(1) a by (cases q) simp_all
  have fr: "layers s1 = AList.update m m (layers s)" "lmap s1 = lmap s" "positionsTree s1 = positionsTree s"
    "\<And>k. options (heap s1 k) = options (heap s k)" "\<And>k. latLng (heap s1 k) = latLng (heap s k)"
    using F(2-6) a by simp_all
  have m1: "lmap s1 = Some mp" using fr(2) Cons.prems(1) by simp
  have v1: "\<forall>k \<in> set ms. valid_marker s1 k"
    using Cons.prems(2) by (simp add: valid_marker_cong [OF fr(4)])
  define mb1 where "mb1 = (case (markerBox r, isVisible r) of (Some b, Some True) \<Rightarrow> mb @ [b] | _ \<Rightarrow> mb)"
  define pb1 where "pb1 = pb @ [positionBox_of m (latLng (heap s m))]"
  have step: "addMarkers_loop (m # ms) mb pb s = addMarkers_loop ms mb1 pb1 s1"
    by (simp add: a q pb mb1_def pb1_def)
  note IH = Cons.IH [OF m1 v1, of mb1 pb1]
  show ?case
    unfolding step using IH by (simp add: fr pb1_def)
qed

lemma addMarkers_valid:
  assumes "lmap s = Some mp" and "\<forall>m \<in> set ms. valid_marker s m"
  shows "snd (addMarkers ms s) = None \<and>
         map marker (positionsTree (fst (addMarkers ms s))) = map marker (positionsTree s) @ ms \<and>
         layers (fst (addMarkers ms s)) = foldl (\<lambda>l m. AList.update m m l) (layers s) ms \<and>
         lmap (fst (addMarkers ms s)) = lmap s \<and>
         (\<forall>k. options (heap (fst (addMarkers ms s)) k) = options (heap s k))"
proof -
  obtain mb' pb' s' r where l: "addMarkers_loop ms [] [] s = (mb', pb', s', r)"
    by (cases "addMarkers_loop ms [] [] s")
  have L: "pb' = map (\<lambda>m. positionBox_of m (latLng (heap s m))) ms" "r = None"
    "layers s' = foldl (\<lambda>l m. AList.update m m l) (layers s) ms"
    "lmap s' = lmap s" "positionsTree s' = positionsTree s"
    "\<And>k. options (heap s' k) = options (heap s k)"
    using addMarkers_loop_valid [OF assms, of "[]" "[]"] by (simp_all add: l)
  have "map marker pb' = ms"
    by (simp add: L(1) comp_def positionBox_of_def)
  then show ?thesis
    using L(2-6) by (simp add: addMarkers_def l load_def)
qed

lemma addMarkers_valid_index:
  assumes "lmap s = Some mp" and "\<forall>m \<in> set ms. valid_marker s m"
  shows "positionsTree (fst (addMarkers ms s)) =
           positionsTree s @ map (\<lambda>m. positionBox_of m (latLng (heap s m))) ms \<and>
         (\<forall>k. latLng (heap (fst (addMarkers ms s)) k) = latLng (heap s k))"
proof -
  obtain mb' pb' s' r where l: "addMarkers_loop ms [] [] s = (mb', pb', s', r)"
    by (cases "addMarkers_loop ms [] [] s")
  have L: "pb' = map (\<lambda>m. positionBox_of m (latLng (heap s m))) ms" "r = None"
    "positionsTree s' = positionsTree s"
    "\<And>k. latLng (heap s' k) = latLng (heap s k)"
    using addMarkers_loop_valid [OF assms, of "[]" "[]"] by (simp_all add: l)
  show ?thesis
    using L by (simp add: addMarkers_def l load_def)
qed

lemma update_keys:
  "fst ` set (foldl (\<lambda>l m. AList.update m m l) l ms) = fst ` set l \<union> set ms"
  by (induction ms arbitrary: l) (auto simp: dom_update)

lemma update_distinct:
  "distinct (map fst l) \<Longrightarrow> distinct (map fst (foldl (\<lambda>l m. AList.update m m l) l ms))"
  by (induction ms arbitrary: l) (simp_all add: distinct_update)

lemma fold_remove_in_place:
  assumes "\<forall>b \<in> set t. b = positionBox_of (marker b) (p (marker b))"
  shows "foldl (\<lambda>t k. remove (positionBox_of k (p k)) same_leaflet_id t) t ms =
           foldl (\<lambda>t k. remove1 (positionBox_of k (p k)) t) t ms \<and>
         map marker (foldl (\<lambda>t k. remove1 (positionBox_of k (p k)) t) t ms) =
           foldl (\<lambda>l k. remove1 k l) (map marker t) ms \<and>
         set (foldl (\<lambda>t k. remove1 (positionBox_of k (p k)) t) t ms) \<subseteq> set t"
  using assms
proof (induction ms arbitrary: t)
  case Nil
  show ?case by simp
next
  case (Cons m ms)
  have w: "\<forall>b \<in> set t. marker b = m \<longrightarrow> b = positionBox_of m (p m)"
    using Cons.prems by auto
  have sub: "set (remove1 (positionBox_of m (p m)) t) \<subseteq> set t"
    by (rule set_remove1_subset)
  have w1: "\<forall>b \<in> set (remove1 (positionBox_of m (p m)) t). b = positionBox_of (marker b) (p (marker b))"
    using Cons.prems sub by blast
  note IH = Cons.IH [OF w1]
  show ?case
    using IH sub by (auto simp: remove_in_place [OF w] remove1_marker_list [OF w])
qed

lemma removeMarker_frame:
  "lmap (fst (removeMarker m s)) = lmap s"
  "options (heap (fst (removeMarker m s)) k) = options (heap s k)"
  by (simp_all add: removeMarker_def Let_def redraw_frame split: option.splits)

lemma removeMarkers_frame:
  "lmap (fst (removeMarkers ms s)) = lmap s"
  "options (heap (fst (removeMarkers ms s)) k) = options (heap s k)"
  by (simp_all add: removeMarkers_def removeMarkers_loop_eq redraw_frame split: option.splits)

lemma removeMarker_index:
  assumes "lmap s = Some mp"
    and "\<forall>b \<in> set (positionsTree s). b = positionBox_of (marker b) (latLng (heap s (marker b)))"
  shows "positionsTree (fst (removeMarker m s)) =
           remove1 (positionBox_of m (latLng (heap s m))) (positionsTree s)"
    and "map marker (positionsTree (fst (removeMarker m s))) = remove1 m (map marker (positionsTree s))"
proof -
  have w: "\<forall>b \<in> set (positionsTree s). marker b = m \<longrightarrow> b = positionBox_of m (latLng (heap s m))"
    using assms(2) by auto
  show "positionsTree (fst (removeMarker m s)) =
           remove1 (positionBox_of m (latLng (heap s m))) (positionsTree s)"
    by (simp add: removeMarker_positionsTree assms(1) remove_in_place [OF w])
  then show "map marker (positionsTree (fst (removeMarker m s))) = remove1 m (map marker (positionsTree s))"
    by (simp add: remove1_marker_list [OF w])
qed

lemma removeMarkers_index:
  assumes "lmap s = Some mp"
    and "\<forall>b \<in> set (positionsTree s). b = positionBox_of (marker b) (latLng (heap s (marker b)))"
  shows "positionsTree (fst (removeMarkers ms s)) =
           foldl (\<lambda>t k. remove1 (positionBox_of k (latLng (heap s k))) t) (positionsTree s) ms"
    and "map marker (positionsTree (fst (removeMarkers ms s))) =
           foldl (\<lambda>l k. remove1 k l) (map marker (positionsTree s)) ms"
proof -
  note F = fold_remove_in_place [of "positionsTree s" "\<lambda>k. latLng (heap s k)" ms, OF assms(2)]
  show "positionsTree (fst (removeMarkers ms s)) =
           foldl (\<lambda>t k. remove1 (positionBox_of k (latLng (heap s k))) t) (positionsTree s) ms"
    using F by (simp add: removeMarkers_def removeMarkers_loop_eq redraw_frame assms(1))
  then show "map marker (positionsTree (fst (removeMarkers ms s))) =
           foldl (\<lambda>l k. remove1 k l) (map marker (positionsTree s)) ms"
    using F by simp
qed

lemma removeMarker_keeps_index_items: "set (positionsTree (fst (removeMarker m s))) \<subseteq> set (positionsTree s)"
  by (simp add: removeMarker_positionsTree remove_subset)

lemma fold_remove_subset:
  "set (foldl (\<lambda>t k. remove (f k) equalsFn t) t ms) \<subseteq> set t"
proof (induction ms arbitrary: t)
  case Nil
  show ?case by simp
next
  case (Cons m ms)
  have "set (foldl (\<lambda>t k. remove (f k) equalsFn t) (remove (f m) equalsFn t) ms) \<subseteq>
        set (remove (f m) equalsFn t)"
    by (rule Cons.IH)
  then show ?case using remove_subset [of "f m" equalsFn t] by auto
qed

lemma removeMarkers_keeps_index_items:
  "set (positionsTree (fst (removeMarkers ms s))) \<subseteq> set (positionsTree s)"
  using fold_remove_subset [of "\<lambda>k. positionBox_of k (latLng (heap s k))" same_leaflet_id "positionsTree s" ms]
  by (simp add: removeMarkers_def removeMarkers_loop_eq redraw_frame split: option.splits)

lemma run_snoc: "run (evs @ [e]) s = step e (run evs s)"
  by (simp add: run_def)

lemma expected_index_snoc: "expected_index (evs @ [e]) = expected_index_step (expected_index evs) e"
  by (simp add: expected_index_def)

lemma flush_frame:
  "lmap (fst (flush es s)) = lmap s \<and> layers (fst (flush es s)) = layers s \<and>
   positionsTree (fst (flush es s)) = positionsTree s \<and> heap (fst (flush es s)) = heap s"
proof (induction es arbitrary: s)
  case Nil
  show ?case by simp
next
  case (Cons q es)
  obtain m x y where q: "q = (m, x, y)" by (cases q)
  show ?case
  proof (cases "lmap s")
    case None
    then show ?thesis by (simp add: q)
  next
    case (Some mp)
    let ?xy = "latLngToContainerPoint mp (latLng (heap s m))"
    obtain s1 r where d: "drawImage m ?xy s = (s1, r)" by (cases "drawImage m ?xy s")
    have "lmap s1 = lmap s" "layers s1 = layers s" "positionsTree s1 = positionsTree s" "heap s1 = heap s"
      using drawImage_frame(1,3,5,7) [of m ?xy s] d by simp_all
    then show ?thesis
      using Cons.IH [of s1] by (simp add: q Some d split: option.splits)
  qed
qed

lemma image_onload_frame:
  "lmap (fst (image_onload u s)) = lmap s"
  "layers (fst (image_onload u s)) = layers s"
  "positionsTree (fst (image_onload u s)) = positionsTree s"
  "heap (fst (image_onload u s)) = heap s"
  by (simp_all add: image_onload_def flush_frame split: option.splits)

lemma image_onerror_frame:
  "lmap (fst (image_onerror u s)) = lmap s"
  "layers (fst (image_onerror u s)) = layers s"
  "positionsTree (fst (image_onerror u s)) = positionsTree s"
  "heap (fst (image_onerror u s)) = heap s"
  by (simp_all add: image_onerror_def split: option.splits)

lemma batch_run:
  assumes "lmap s = Some mp" and "layers s = []" and "positionsTree s = []"
    and "\<forall>e \<in> set evs. batch_event e"
    and "\<forall>m \<in> set (concat (map added evs)). valid_marker s m"
  shows "lmap (run evs s) \<noteq> None \<and>
         map marker (positionsTree (run evs s)) = expected_index evs \<and>
         set (map fst (layers (run evs s))) = set (concat (map added evs)) \<and>
         distinct (map fst (layers (run evs s))) \<and>
         (\<forall>k. options (heap (run evs s) k) = options (heap s k)) \<and>
         (\<forall>k. latLng (heap (run evs s) k) = latLng (heap s k)) \<and>
         (\<forall>b \<in> set (positionsTree (run evs s)). b = positionBox_of (marker b) (latLng (heap s (marker b))))"
  using assms(4,5)
proof (induction evs rule: rev_induct)
  case Nil
  show ?case using assms(1,2,3) by (simp add: run_def expected_index_def)
next
  case (snoc e evs)
  let ?s = "run evs s"
  have IH: "map marker (positionsTree ?s) = expected_index evs"
    "set (map fst (layers ?s)) = set (concat (map added evs))" "distinct (map fst (layers ?s))"
    "\<And>k. options (heap ?s k) = options (heap s k)"
    "\<And>k. latLng (heap ?s k) = latLng (heap s k)"
    using snoc by simp_all
  have W: "\<forall>b \<in> set (positionsTree ?s). b = positionBox_of (marker b) (latLng (heap s (marker b)))"
    using snoc by simp
  have W': "\<forall>b \<in> set (positionsTree ?s). b = positionBox_of (marker b) (latLng (heap ?s (marker b)))"
    using W by (simp add: IH(5))
  obtain mp' where mp': "lmap ?s = Some mp'" using snoc by auto
  have bo: "batch_event e" using snoc.prems(1) by simp
  show ?case
  proof (cases e)
    case (AddMarkers ms)
    have v: "\<forall>m \<in> set ms. valid_marker ?s m"
      using snoc.prems(2) by (simp add: AddMarkers valid_marker_cong [OF IH(4)])
    note A = addMarkers_valid [OF mp' v]
    note B = addMarkers_valid_index [OF mp' v]
    have w: "\<forall>b \<in> set (positionsTree (fst (addMarkers ms ?s))).
               b = positionBox_of (marker b) (latLng (heap s (marker b)))"
      using B W by (auto simp: IH(5) positionBox_of_def)
    have "map marker (positionsTree (step e ?s)) = expected_index (evs @ [e])"
      "set (map fst (layers (step e ?s))) = set (concat (map added (evs @ [e])))"
      "distinct (map fst (layers (step e ?s)))" "lmap (step e ?s) \<noteq> None"
      "\<And>k. options (heap (step e ?s) k) = options (heap s k)"
      "\<And>k. latLng (heap (step e ?s) k) = latLng (heap s k)"
      using A B IH mp' by (simp_all add: expected_index_snoc AddMarkers update_keys update_distinct)
    then show ?thesis using w by (simp add: run_snoc AddMarkers)
  next
    case (RemoveMarker m)
    have w: "\<forall>b \<in> set (positionsTree (fst (removeMarker m ?s))).
               b = positionBox_of (marker b) (latLng (heap s (marker b)))"
      using W removeMarker_keeps_index_items [of m ?s] by blast
    show ?thesis
      using IH mp' removeMarker_index(2) [OF mp' W', of m] w
      by (simp add: run_snoc expected_index_snoc RemoveMarker removeMarker_frame removeMarker_layers
          removeMarker_latLng)
  next
    case (RemoveMarkers ms)
    have w: "\<forall>b \<in> set (positionsTree (fst (removeMarkers ms ?s))).
               b = positionBox_of (marker b) (latLng (heap s (marker b)))"
      using W removeMarkers_keeps_index_items [of ms ?s] by blast
    show ?thesis
      using IH mp' removeMarkers_index(2) [OF mp' W', of ms] w
      by (simp add: run_snoc expected_index_snoc RemoveMarkers removeMarkers_frame removeMarkers_layers
          removeMarkers_latLng)
  next
    case (MoveEnd mp2)
    show ?thesis
      using IH W mp' by (simp add: run_snoc expected_index_snoc MoveEnd reset_def redraw_frame)
  next
    case (Redraw c)
    show ?thesis
      using IH W mp' by (simp add: run_snoc expected_index_snoc Redraw redraw_frame)
  next
    case (ImageLoad u)
    show ?thesis
      using IH W mp' by (simp add: run_snoc expected_index_snoc ImageLoad image_onload_frame)
  next
    case (ImageError u)
    show ?thesis
      using IH W mp' by (simp add: run_snoc expected_index_snoc ImageError image_onerror_frame)
  qed (use bo in simp_all)
qed

lemma fold_remove1_length: "length (foldl (\<lambda>l k. remove1 k l) l ms) \<le> length l"
proof (induction ms arbitrary: l)
  case Nil
  show ?case by simp
next
  case (Cons m ms)
  have "length (foldl (\<lambda>l k. remove1 k l) (remove1 m l) ms) \<le> length (remove1 m l)"
    by (rule Cons.IH)
  also have "\<dots> \<le> length l" by (simp add: length_remove1)
  finally show ?case by simp
qed

lemma expected_index_length: "length (expected_index evs) \<le> length (concat (map added evs))"
proof (induction evs rule: rev_induct)
  case Nil
  show ?case by (simp add: expected_index_def)
next
  case (snoc e evs)
  show ?case
  proof (cases e)
    case (RemoveMarker m)
    have "length (remove1 m (expected_index evs)) \<le> length (expected_index evs)"
      by (simp add: length_remove1)
    then show ?thesis using snoc by (simp add: expected_index_snoc RemoveMarker)
  next
    case (RemoveMarkers ms)
    then show ?thesis
      using snoc fold_remove1_length [of "expected_index evs" ms]
      by (simp add: expected_index_snoc)
  qed (use snoc in \<open>simp_all add: expected_index_snoc\<close>)
qed

lemma expected_index_no_removal:
  "concat (map removed evs) = [] \<Longrightarrow> expected_index evs = concat (map added evs)"
proof (induction evs rule: rev_induct)
  case Nil
  show ?case by (simp add: expected_index_def)
next
  case (snoc e evs)
  then show ?case by (cases e) (simp_all add: expected_index_snoc)
qed

text \<open>
  Claim C1, as amended. Take a layer on an attached map with no markers yet, and any
  sequence of \<open>addMarkers\<close>, \<open>removeMarker\<close> and \<open>removeMarkers\<close> calls whose added
  markers are valid and pairwise distinct; redraws, moves of the map and the loads and
  failures of images may happen in between. Then the position index holds exactly the
  markers added and not removed since, while \<open>getAllMarkers\<close> holds every marker ever
  added: a removal takes a marker out of the index and leaves it registered. So the
  index never has more entries than there are registered markers, and has as many as
  long as the sequence removes nothing.
\<close>

theorem position_index_tracks_batches:
  assumes "lmap s = Some mp" and "layers s = []" and "positionsTree s = []"
    and "\<forall>e \<in> set evs. batch_event e"
    and "\<forall>m \<in> set (concat (map added evs)). valid_marker s m"
    and "distinct (concat (map added evs))"
  shows "map marker (positionsTree (run evs s)) = expected_index evs \<and>
         set (map fst (getAllMarkers (run evs s))) = set (concat (map added evs)) \<and>
         length (getAllMarkers (run evs s)) = length (concat (map added evs)) \<and>
         length (positionsTree (run evs s)) \<le> length (getAllMarkers (run evs s)) \<and>
         (concat (map removed evs) = [] \<longrightarrow>
            length (positionsTree (run evs s)) = length (getAllMarkers (run evs s)))"
proof -
  note B = batch_run [OF assms(1-5)]
  have len: "length (layers (run evs s)) = length (concat (map added evs))"
    using B assms(6) by (metis distinct_card length_map)
  have idx: "length (positionsTree (run evs s)) = length (expected_index evs)"
    using B by (metis length_map)
  have le: "length (positionsTree (run evs s)) \<le> length (layers (run evs s))"
    using expected_index_length [of evs] by (simp add: len idx)
  have eq: "concat (map removed evs) = [] \<Longrightarrow>
      length (positionsTree (run evs s)) = length (layers (run evs s))"
    using expected_index_no_removal [of evs] by (simp add: len idx)
  show ?thesis
    using B len le eq by (simp add: getAllMarkers_def)
qed

theorem position_index_tracks_batches_witness:
  "map marker (positionsTree
     (run [AddMarkers [2, 3], ImageLoad ''a.png'', AddMarkers [4], MoveEnd view1, RemoveMarker 3] ex_attached)) =
     [2, 4]
   \<and> expected_index [AddMarkers [2, 3], ImageLoad ''a.png'', AddMarkers [4], MoveEnd view1, RemoveMarker 3] =
     [2, 4]
   \<and> length (getAllMarkers
     (run [AddMarkers [2, 3], ImageLoad ''a.png'', AddMarkers [4], MoveEnd view1, RemoveMarker 3] ex_attached)) = 3
   \<and> length (positionsTree (run [AddMarkers [2, 3], AddMarkers [4]] ex_attached)) =
       length (getAllMarkers (run [AddMarkers [2, 3], AddMarkers [4]] ex_attached))"
  using position_index_tracks_batches [of ex_attached view0
      "[AddMarkers [2, 3], ImageLoad ''a.png'', AddMarkers [4], MoveEnd view1, RemoveMarker 3]"]
    position_index_tracks_batches [of ex_attached view0 "[AddMarkers [2, 3], AddMarkers [4]]"]
  by (simp add: fixture_defs valid_marker_def expected_index_def)

text \<open>
  The claim as it was stated, equality after every sequence, fails after one removal:
  three markers are registered and two are indexed.
\<close>

theorem position_index_count_counterexample:
  "length (positionsTree (run [AddMarkers [2, 3, 4], RemoveMarker 2] ex_attached)) = 2
   \<and> length (getAllMarkers (run [AddMarkers [2, 3, 4], RemoveMarker 2] ex_attached)) = 3"
  by (simp add: run_def getAllMarkers_def removeMarker_positionsTree removeMarker_layers
      ex_added_def [symmetric] ex_added_fields positionBox_of_def same_leaflet_id_def contains_bbox_def)
    (simp add: ex_added_def fixture_defs engine_defs)

section \<open>Removing a marker from the index and from the screen\<close>

lemma redraw_loop_valid:
  assumes "\<forall>b \<in> set bs. valid_marker s (marker b)"
  shows "snd (snd (redraw_loop mp bs acc s)) = None"
  using assms
proof (induction bs arbitrary: acc s)
  case Nil
  show ?case by simp
next
  case (Cons b bs)
  let ?m = "marker b"
  let ?xy = "latLngToContainerPoint mp (latLng (heap s ?m))"
  have vm: "valid_marker s ?m" using Cons.prems by simp
  obtain io an sz where io: "icon (options (heap s ?m)) = Some io" "iconAnchor io = Some an" "iconSize io = Some sz"
    using vm by (auto simp: valid_marker_def split: option.splits)
  obtain s1 r where d: "drawMarker ?m ?xy s = (s1, r)" by (cases "drawMarker ?m ?xy s")
  have r: "r = None" using drawMarker_valid [OF vm, of ?xy] d by simp
  have op: "\<And>k. options (heap s1 k) = options (heap s k)"
    using drawMarker_heap(2) [of ?m ?xy s] d by simp
  have v1: "\<forall>b \<in> set bs. valid_marker s1 (marker b)"
    using Cons.prems by (simp add: valid_marker_cong [OF op])
  show ?case
    using Cons.IH [OF v1] by (simp add: Let_def io d r)
qed

lemma redraw_valid:
  assumes "\<forall>b \<in> set (positionsTree s). valid_marker s (marker b)"
  shows "snd (redraw True s) = None"
proof (cases "lmap s")
  case None
  then show ?thesis by (simp add: redraw_def)
next
  case (Some mp)
  let ?s0 = "s\<lparr>canvas := []\<rparr>"
  let ?found = "search (mapBoundsBox (getMapBounds mp)) (positionsTree s)"
  have v: "\<forall>b \<in> set ?found. valid_marker ?s0 (marker b)"
    using assms by (simp add: search_def valid_marker_def)
  obtain markers s1 r where l: "redraw_loop mp ?found [] ?s0 = (markers, s1, r)"
    by (cases "redraw_loop mp ?found [] ?s0")
  have "r = None" using redraw_loop_valid [OF v, of mp "[]"] l by simp
  then show ?thesis using Some l by (simp add: redraw_def)
qed

lemma redraw_screen_index:
  assumes "lmap s = Some mp" and "snd (redraw True s) = None"
    and "\<forall>b \<in> set (positionsTree s). b = positionBox_of (marker b) (latLng (heap s (marker b)))"
  shows "map Some (markersTree (fst (redraw True s))) =
           map (screen_box mp s)
             (filter (\<lambda>m. contains (getMapBounds mp) (latLng (heap s m))) (map marker (positionsTree s))) \<and>
         (\<forall>b \<in> set (markersTree (fst (redraw True s))). draw_requested (fst (redraw True s)) (marker b)) \<and>
         set (map d_marker (canvas (fst (redraw True s)))) \<subseteq>
           set (map marker (markersTree (fst (redraw True s)))) \<and>
         set (map marker (markersTree (fst (redraw True s)))) \<subseteq> set (map marker (positionsTree s))"
proof -
  let ?s0 = "s\<lparr>canvas := []\<rparr>"
  let ?found = "search (mapBoundsBox (getMapBounds mp)) (positionsTree s)"
  obtain markers s1 r where l: "redraw_loop mp ?found [] ?s0 = (markers, s1, r)"
    by (cases "redraw_loop mp ?found [] ?s0")
  have r: "r = None" using assms(1,2) l by (cases r) (simp_all add: redraw_def)
  have rd: "redraw True s = (s1\<lparr>markersTree := markers\<rparr>, None)"
    using assms(1) l r by (simp add: redraw_def load_def)
  have ok: "snd (snd (redraw_loop mp ?found [] ?s0)) = None" by (simp add: l r)
  have sb: "\<And>k. screen_box mp ?s0 k = screen_box mp s k" by (rule screen_box_cong) simp_all
  have L1: "map Some markers = map (\<lambda>b. screen_box mp s (marker b)) ?found"
    and L3: "\<forall>b \<in> set ?found. draw_requested s1 (marker b)"
    and L4: "set (map d_marker (canvas s1)) \<subseteq> marker ` set ?found"
    using redraw_loop_ok [OF ok] by (simp_all add: l sb)
  have f: "?found = filter (\<lambda>b. contains (getMapBounds mp) (latLng (heap s (marker b)))) (positionsTree s)"
    using search_positions [OF assms(3), of "getMapBounds mp"] by simp
  have a: "map Some markers =
           map (screen_box mp s)
             (filter (\<lambda>m. contains (getMapBounds mp) (latLng (heap s m))) (map marker (positionsTree s)))"
    using L1 by (simp add: f filter_map comp_def)
  have mk: "map marker markers = map marker ?found"
    by (rule map_Some_eq [OF L1]) (rule screen_box_marker)
  then have mks: "marker ` set markers = marker ` set ?found"
    by (metis list.set_map)
  have dr: "\<And>k. draw_requested (s1\<lparr>markersTree := markers\<rparr>) k = draw_requested s1 k"
    by (simp add: draw_requested_def cong: option.case_cong)
  have b: "\<forall>b \<in> set markers. draw_requested (s1\<lparr>markersTree := markers\<rparr>) (marker b)"
  proof
    fix b assume "b \<in> set markers"
    then have "marker b \<in> marker ` set ?found" using mks by blast
    then show "draw_requested (s1\<lparr>markersTree := markers\<rparr>) (marker b)"
      using L3 by (auto simp: dr)
  qed
  have c: "set (map d_marker (canvas s1)) \<subseteq> set (map marker markers)"
    using L4 mks by simp
  have "set ?found \<subseteq> set (positionsTree s)" by (simp add: search_def)
  then have d: "set (map marker markers) \<subseteq> set (map marker (positionsTree s))"
    using mks by auto
  show ?thesis using a b c d by (simp add: rd)
qed


lemma removal_redraws:
  assumes "lmap s = Some mp"
    and "\<forall>b \<in> set (positionsTree s). b = positionBox_of (marker b) (latLng (heap s (marker b)))"
    and "\<forall>b \<in> set (positionsTree s). valid_marker s (marker b)"
    and "set t \<subseteq> set (positionsTree s)"
  shows "snd (redraw True (s\<lparr>positionsTree := t\<rparr>)) = None \<and>
         positionsTree (fst (redraw True (s\<lparr>positionsTree := t\<rparr>))) = t \<and>
         map Some (markersTree (fst (redraw True (s\<lparr>positionsTree := t\<rparr>)))) =
           map (screen_box mp s)
             (filter (\<lambda>k. contains (getMapBounds mp) (latLng (heap s k))) (map marker t)) \<and>
         (\<forall>b \<in> set (markersTree (fst (redraw True (s\<lparr>positionsTree := t\<rparr>)))).
            draw_requested (fst (redraw True (s\<lparr>positionsTree := t\<rparr>))) (marker b)) \<and>
         set (map d_marker (canvas (fst (redraw True (s\<lparr>positionsTree := t\<rparr>))))) \<subseteq>
           set (map marker (markersTree (fst (redraw True (s\<lparr>positionsTree := t\<rparr>))))) \<and>
         set (map marker (markersTree (fst (redraw True (s\<lparr>positionsTree := t\<rparr>))))) \<subseteq> set (map marker t)"
proof -
  let ?s1 = "s\<lparr>positionsTree := t\<rparr>"
  have m1: "lmap ?s1 = Some mp" using assms(1) by simp
  have w1: "\<forall>b \<in> set (positionsTree ?s1). b = positionBox_of (marker b) (latLng (heap ?s1 (marker b)))"
    using assms(2,4) by auto
  have v1: "\<forall>b \<in> set (positionsTree ?s1). valid_marker ?s1 (marker b)"
    using assms(3,4) by (auto simp: valid_marker_def)
  have ok: "snd (redraw True ?s1) = None" by (rule redraw_valid [OF v1])
  have sb: "\<And>k. screen_box mp ?s1 k = screen_box mp s k" by (rule screen_box_cong) simp_all
  note R = redraw_screen_index [OF m1 ok w1]
  have p: "positionsTree (fst (redraw True ?s1)) = t" by (simp add: redraw_frame)
  show ?thesis using R ok p by (simp add: sb)
qed


text \<open>
  Claim C6, as amended. Let a map be attached, and let the position index hold each
  marker at the position the marker has now, all of them valid. Then \<open>removeMarker\<close>
  takes one item of the marker out of the position index, the first one, leaves the
  items of the other markers, and returns without an exception. If the marker's position
  lies outside the map's bounds, nothing else changes: the canvas and the screen index
  stay as they were. If it lies inside, the layer is redrawn: the screen index holds the
  screen boxes of the markers left in the position index that are in view, every entry
  belongs to a marker whose draw was requested, the canvas holds only draws of markers
  with an entry, and a marker that was indexed once is gone from both. \<open>removeMarkers\<close>
  takes out one item for each marker it is given and redraws in the same way exactly
  when one of them is in view. The index \<open>removeMarker\<close> leaves is the one the library's
  traversal leaves of a tree of any shape that holds the items of the index.
\<close>

theorem removeMarker_removes_entry_and_redraws_iff_visible:
  assumes "lmap s = Some mp"
    and "\<forall>b \<in> set (positionsTree s). b = positionBox_of (marker b) (latLng (heap s (marker b)))"
    and "\<forall>b \<in> set (positionsTree s). valid_marker s (marker b)"
  shows "positionsTree (fst (removeMarker m s)) =
           remove1 (positionBox_of m (latLng (heap s m))) (positionsTree s) \<and>
         map marker (positionsTree (fst (removeMarker m s))) = remove1 m (map marker (positionsTree s)) \<and>
         snd (removeMarker m s) = None \<and>
         (\<not> contains (getMapBounds mp) (latLng (heap s m)) \<longrightarrow>
            removeMarker m s =
              (s\<lparr>positionsTree := remove1 (positionBox_of m (latLng (heap s m))) (positionsTree s)\<rparr>, None)) \<and>
         (contains (getMapBounds mp) (latLng (heap s m)) \<longrightarrow>
            map Some (markersTree (fst (removeMarker m s))) =
              map (screen_box mp s)
                (filter (\<lambda>k. contains (getMapBounds mp) (latLng (heap s k)))
                   (remove1 m (map marker (positionsTree s)))) \<and>
            (\<forall>b \<in> set (markersTree (fst (removeMarker m s))).
               draw_requested (fst (removeMarker m s)) (marker b)) \<and>
            set (map d_marker (canvas (fst (removeMarker m s)))) \<subseteq>
              set (map marker (markersTree (fst (removeMarker m s)))) \<and>
            (distinct (map marker (positionsTree s)) \<longrightarrow>
               m \<notin> set (map marker (markersTree (fst (removeMarker m s)))) \<and>
               m \<notin> set (map d_marker (canvas (fst (removeMarker m s)))))) \<and>
         positionsTree (fst (removeMarkers ms s)) =
           foldl (\<lambda>t k. remove1 (positionBox_of k (latLng (heap s k))) t) (positionsTree s) ms \<and>
         snd (removeMarkers ms s) = None \<and>
         (\<not> (\<exists>k \<in> set ms. contains (getMapBounds mp) (latLng (heap s k))) \<longrightarrow>
            removeMarkers ms s =
              (s\<lparr>positionsTree :=
                   foldl (\<lambda>t k. remove1 (positionBox_of k (latLng (heap s k))) t) (positionsTree s) ms\<rparr>,
               None)) \<and>
         ((\<exists>k \<in> set ms. contains (getMapBounds mp) (latLng (heap s k))) \<longrightarrow>
            map Some (markersTree (fst (removeMarkers ms s))) =
              map (screen_box mp s)
                (filter (\<lambda>k. contains (getMapBounds mp) (latLng (heap s k)))
                   (foldl (\<lambda>l k. remove1 k l) (map marker (positionsTree s)) ms)) \<and>
            set (map d_marker (canvas (fst (removeMarkers ms s)))) \<subseteq>
              set (map marker (markersTree (fst (removeMarkers ms s))))) \<and>
         (items_of tr = positionsTree s \<longrightarrow>
            items_of (tree_remove (positionBox_of m (latLng (heap s m))) same_leaflet_id tr) =
              positionsTree (fst (removeMarker m s)))"
proof -
  let ?pb = "positionBox_of m (latLng (heap s m))"
  let ?t = "remove1 ?pb (positionsTree s)"
  let ?s1 = "s\<lparr>positionsTree := ?t\<rparr>"
  have w: "\<forall>b \<in> set (positionsTree s). marker b = m \<longrightarrow> b = ?pb"
    using assms(2) by auto
  have rm: "remove ?pb same_leaflet_id (positionsTree s) = ?t" by (rule remove_in_place [OF w])
  have mt: "map marker ?t = remove1 m (map marker (positionsTree s))" by (rule remove1_marker_list [OF w])
  have sub: "set ?t \<subseteq> set (positionsTree s)" by (rule set_remove1_subset)
  have eq: "removeMarker m s =
      (if contains (getMapBounds mp) (latLng (heap s m)) then redraw True ?s1 else (?s1, None))"
    by (simp add: removeMarker_def assms(1) Let_def rm)
  note R = removal_redraws [OF assms sub]
  have a: "positionsTree (fst (removeMarker m s)) = ?t"
    using R by (simp add: eq)
  have b: "map marker (positionsTree (fst (removeMarker m s))) = remove1 m (map marker (positionsTree s))"
    by (simp only: a mt)
  have c: "snd (removeMarker m s) = None" using R by (simp add: eq)
  have d: "\<not> contains (getMapBounds mp) (latLng (heap s m)) \<longrightarrow> removeMarker m s = (?s1, None)"
    by (simp add: eq)
  have e: "contains (getMapBounds mp) (latLng (heap s m)) \<longrightarrow>
            map Some (markersTree (fst (removeMarker m s))) =
              map (screen_box mp s)
                (filter (\<lambda>k. contains (getMapBounds mp) (latLng (heap s k)))
                   (remove1 m (map marker (positionsTree s)))) \<and>
            (\<forall>b \<in> set (markersTree (fst (removeMarker m s))).
               draw_requested (fst (removeMarker m s)) (marker b)) \<and>
            set (map d_marker (canvas (fst (removeMarker m s)))) \<subseteq>
              set (map marker (markersTree (fst (removeMarker m s)))) \<and>
            (distinct (map marker (positionsTree s)) \<longrightarrow>
               m \<notin> set (map marker (markersTree (fst (removeMarker m s)))) \<and>
               m \<notin> set (map d_marker (canvas (fst (removeMarker m s)))))"
  proof
    assume vis: "contains (getMapBounds mp) (latLng (heap s m))"
    have eq1: "removeMarker m s = redraw True ?s1" using vis by (simp add: eq)
    have r1: "map Some (markersTree (fst (redraw True ?s1))) =
              map (screen_box mp s)
                (filter (\<lambda>k. contains (getMapBounds mp) (latLng (heap s k)))
                   (remove1 m (map marker (positionsTree s))))"
      using R by (simp only: mt)
    have r2: "\<forall>b \<in> set (markersTree (fst (redraw True ?s1))). draw_requested (fst (redraw True ?s1)) (marker b)"
      using R by blast
    have r3: "set (map d_marker (canvas (fst (redraw True ?s1)))) \<subseteq>
              set (map marker (markersTree (fst (redraw True ?s1))))"
      using R by blast
    have r4: "set (map marker (markersTree (fst (redraw True ?s1)))) \<subseteq>
              set (remove1 m (map marker (positionsTree s)))"
      using R by (simp only: mt)
    have r5: "distinct (map marker (positionsTree s)) \<longrightarrow>
               m \<notin> set (map marker (markersTree (fst (redraw True ?s1)))) \<and>
               m \<notin> set (map d_marker (canvas (fst (redraw True ?s1))))"
    proof
      assume "distinct (map marker (positionsTree s))"
      then have "m \<notin> set (remove1 m (map marker (positionsTree s)))" by simp
      then have "m \<notin> set (map marker (markersTree (fst (redraw True ?s1))))" using r4 by blast
      then show "m \<notin> set (map marker (markersTree (fst (redraw True ?s1)))) \<and>
               m \<notin> set (map d_marker (canvas (fst (redraw True ?s1))))" using r3 by blast
    qed
    show "map Some (markersTree (fst (removeMarker m s))) =
              map (screen_box mp s)
                (filter (\<lambda>k. contains (getMapBounds mp) (latLng (heap s k)))
                   (remove1 m (map marker (positionsTree s)))) \<and>
            (\<forall>b \<in> set (markersTree (fst (removeMarker m s))).
               draw_requested (fst (removeMarker m s)) (marker b)) \<and>
            set (map d_marker (canvas (fst (removeMarker m s)))) \<subseteq>
              set (map marker (markersTree (fst (removeMarker m s)))) \<and>
            (distinct (map marker (positionsTree s)) \<longrightarrow>
               m \<notin> set (map marker (markersTree (fst (removeMarker m s)))) \<and>
               m \<notin> set (map d_marker (canvas (fst (removeMarker m s)))))"
      unfolding eq1 by (intro conjI r1 r2 r3 r5)
  qed
  let ?T = "foldl (\<lambda>t k. remove1 (positionBox_of k (latLng (heap s k))) t) (positionsTree s) ms"
  let ?S = "s\<lparr>positionsTree := ?T\<rparr>"
  let ?vis = "\<exists>k \<in> set ms. contains (getMapBounds mp) (latLng (heap s k))"
  note F = fold_remove_in_place [of "positionsTree s" "\<lambda>k. latLng (heap s k)" ms, OF assms(2)]
  have F1: "foldl (\<lambda>t k. remove (positionBox_of k (latLng (heap s k))) same_leaflet_id t) (positionsTree s) ms = ?T"
    using F by (rule conjunct1)
  have F2: "map marker ?T = foldl (\<lambda>l k. remove1 k l) (map marker (positionsTree s)) ms"
    using F by (rule conjunct1 [OF conjunct2])
  have F3: "set ?T \<subseteq> set (positionsTree s)"
    using F by (rule conjunct2 [OF conjunct2])
  have eqs: "removeMarkers ms s = (if ?vis then redraw True ?S else (?S, None))"
    by (simp add: removeMarkers_def assms(1) removeMarkers_loop_eq F1)
  note RS = removal_redraws [OF assms F3]
  have f: "positionsTree (fst (removeMarkers ms s)) = ?T"
    using RS by (simp add: eqs)
  have g: "snd (removeMarkers ms s) = None" using RS by (simp add: eqs)
  have h: "\<not> ?vis \<longrightarrow> removeMarkers ms s = (?S, None)"
    by (simp add: eqs)
  have i: "?vis \<longrightarrow>
            map Some (markersTree (fst (removeMarkers ms s))) =
              map (screen_box mp s)
                (filter (\<lambda>k. contains (getMapBounds mp) (latLng (heap s k)))
                   (foldl (\<lambda>l k. remove1 k l) (map marker (positionsTree s)) ms)) \<and>
            set (map d_marker (canvas (fst (removeMarkers ms s)))) \<subseteq>
              set (map marker (markersTree (fst (removeMarkers ms s))))"
  proof
    assume vis: ?vis
    have eq1: "removeMarkers ms s = redraw True ?S" using vis by (simp only: eqs if_True)
    have r1: "map Some (markersTree (fst (redraw True ?S))) =
              map (screen_box mp s)
                (filter (\<lambda>k. contains (getMapBounds mp) (latLng (heap s k)))
                   (foldl (\<lambda>l k. remove1 k l) (map marker (positionsTree s)) ms))"
      using RS by (simp only: F2)
    have r3: "set (map d_marker (canvas (fst (redraw True ?S)))) \<subseteq>
              set (map marker (markersTree (fst (redraw True ?S))))"
      using RS by blast
    show "map Some (markersTree (fst (removeMarkers ms s))) =
              map (screen_box mp s)
                (filter (\<lambda>k. contains (getMapBounds mp) (latLng (heap s k)))
                   (foldl (\<lambda>l k. remove1 k l) (map marker (positionsTree s)) ms)) \<and>
            set (map d_marker (canvas (fst (removeMarkers ms s)))) \<subseteq>
              set (map marker (markersTree (fst (removeMarkers ms s))))"
      unfolding eq1 by (intro conjI r1 r3)
  qed
  have j: "items_of tr = positionsTree s \<longrightarrow>
            items_of (tree_remove ?pb same_leaflet_id tr) = positionsTree (fst (removeMarker m s))"
  proof
    assume tr: "items_of tr = positionsTree s"
    have "\<forall>b \<in> set (items_of tr). same_leaflet_id ?pb b \<longrightarrow> contains_bbox b ?pb"
    proof (intro ballI impI)
      fix b assume b: "b \<in> set (items_of tr)" and e: "same_leaflet_id ?pb b"
      have "marker b = m" using e by (simp add: same_leaflet_id_def positionBox_of_def)
      then have "b = ?pb" using w b by (simp add: tr)
      then show "contains_bbox b ?pb" by (simp add: contains_bbox_def)
    qed
    then have "items_of (tree_remove ?pb same_leaflet_id tr) = remove ?pb same_leaflet_id (items_of tr)"
      by (rule tree_remove_in_place)
    then show "items_of (tree_remove ?pb same_leaflet_id tr) = positionsTree (fst (removeMarker m s))"
      by (simp only: tr rm a)
  qed
  show ?thesis by (intro conjI a b c d e f g h i j)
qed



lemma ex_loaded_removeMarker:
  "removeMarker 2 ex_loaded =
     (ex_loaded\<lparr>positionsTree := [positionBox_of 3 \<lparr>lat = 4, lng = 6\<rparr>, positionBox_of 4 \<lparr>lat = 50, lng = 50\<rparr>],
        canvas := [\<lparr> d_marker = 3, d_at = (60, 60), d_halo = None, d_image = HTMLImageElement ''a.png'',
                     d_rect = (- 16, - 16, 32, 32), d_badges = [] \<rparr>],
        markersTree := [\<lparr> minX = 44, minY = 44, maxX = 76, maxY = 76, marker = 3 \<rparr>]\<rparr>, None)"
  "removeMarker 4 ex_loaded =
     (ex_loaded\<lparr>positionsTree := [positionBox_of 2 \<lparr>lat = 5, lng = 5\<rparr>, positionBox_of 3 \<lparr>lat = 4, lng = 6\<rparr>]\<rparr>,
      None)"
  "map d_marker (canvas ex_loaded) = [2, 3]"
  "map marker (markersTree ex_loaded) = [2, 3]"
  "valid_marker ex_loaded 2" "valid_marker ex_loaded 3" "valid_marker ex_loaded 4"
  by (simp_all add: ex_loaded_def ex_added_def fixture_defs engine_defs valid_marker_def)


lemma ex_loaded_removeMarkers:
  "removeMarkers [2, 4] ex_loaded =
     (ex_loaded\<lparr>positionsTree := [positionBox_of 3 \<lparr>lat = 4, lng = 6\<rparr>],
        canvas := [\<lparr> d_marker = 3, d_at = (60, 60), d_halo = None, d_image = HTMLImageElement ''a.png'',
                     d_rect = (- 16, - 16, 32, 32), d_badges = [] \<rparr>],
        markersTree := [\<lparr> minX = 44, minY = 44, maxX = 76, maxY = 76, marker = 3 \<rparr>]\<rparr>, None)"
  "removeMarkers [4] ex_loaded =
     (ex_loaded\<lparr>positionsTree := [positionBox_of 2 \<lparr>lat = 5, lng = 5\<rparr>, positionBox_of 3 \<lparr>lat = 4, lng = 6\<rparr>]\<rparr>,
      None)"
  by (simp_all add: ex_loaded_def ex_added_def fixture_defs engine_defs)

lemma ex_added_removeMarker:
  "removeMarker 4 ex_added =
     (ex_added\<lparr>positionsTree := [positionBox_of 2 \<lparr>lat = 5, lng = 5\<rparr>, positionBox_of 3 \<lparr>lat = 4, lng = 6\<rparr>]\<rparr>,
      None)"
  "canvas ex_added = []"
  "map d_marker (canvas (fst (redraw True ex_added))) = [2, 3]"
  "valid_marker ex_added 2" "valid_marker ex_added 3" "valid_marker ex_added 4"
  by (simp_all add: ex_added_def fixture_defs engine_defs valid_marker_def)

text \<open>
  Markers 2 and 3 are on the canvas and in the screen index. Removing marker 2, which is
  in view, leaves marker 3 alone on both; removing marker 4, which is not, changes the
  position index only. The same holds of removing the batch of 2 and 4 and the batch
  of 4. In \<open>ex_added\<close>, where a redraw would paint markers 2 and 3, removing marker 4
  leaves the canvas empty. On a tree of two leaves that holds the three items, the
  library's traversal finds the item of marker 2 as well.
\<close>

theorem removeMarker_witness:
  "map d_marker (canvas ex_loaded) = [2, 3]
   \<and> map marker (markersTree ex_loaded) = [2, 3]
   \<and> map marker (positionsTree (fst (removeMarker 2 ex_loaded))) = [3, 4]
   \<and> markersTree (fst (removeMarker 2 ex_loaded)) =
       [\<lparr> minX = 44, minY = 44, maxX = 76, maxY = 76, marker = 3 \<rparr>]
   \<and> map d_marker (canvas (fst (removeMarker 2 ex_loaded))) = [3]
   \<and> removeMarker 4 ex_loaded =
       (ex_loaded\<lparr>positionsTree :=
           [positionBox_of 2 \<lparr>lat = 5, lng = 5\<rparr>, positionBox_of 3 \<lparr>lat = 4, lng = 6\<rparr>]\<rparr>, None)
   \<and> map marker (positionsTree (fst (removeMarkers [2, 4] ex_loaded))) = [3]
   \<and> markersTree (fst (removeMarkers [2, 4] ex_loaded)) =
       [\<lparr> minX = 44, minY = 44, maxX = 76, maxY = 76, marker = 3 \<rparr>]
   \<and> map d_marker (canvas (fst (removeMarkers [2, 4] ex_loaded))) = [3]
   \<and> removeMarkers [4] ex_loaded =
       (ex_loaded\<lparr>positionsTree :=
           [positionBox_of 2 \<lparr>lat = 5, lng = 5\<rparr>, positionBox_of 3 \<lparr>lat = 4, lng = 6\<rparr>]\<rparr>, None)
   \<and> canvas (fst (removeMarker 4 ex_added)) = []
   \<and> map d_marker (canvas (fst (redraw True ex_added))) = [2, 3]
   \<and> items_of (tree_remove (positionBox_of 2 \<lparr>lat = 5, lng = 5\<rparr>) same_leaflet_id
         (Inner [Leaf [positionBox_of 2 \<lparr>lat = 5, lng = 5\<rparr>, positionBox_of 3 \<lparr>lat = 4, lng = 6\<rparr>],
                 Leaf [positionBox_of 4 \<lparr>lat = 50, lng = 50\<rparr>]])) =
       [positionBox_of 3 \<lparr>lat = 4, lng = 6\<rparr>, positionBox_of 4 \<lparr>lat = 50, lng = 50\<rparr>]"
proof -
  have a: "lmap ex_loaded = Some view0" by (rule ex_loaded_fields(1))
  have w: "\<forall>b \<in> set (positionsTree ex_loaded).
             b = positionBox_of (marker b) (latLng (heap ex_loaded (marker b)))"
    by (simp add: ex_loaded_fields positionBox_of_def)
  have v: "\<forall>b \<in> set (positionsTree ex_loaded). valid_marker ex_loaded (marker b)"
    by (simp add: ex_loaded_fields(2) positionBox_of_def ex_loaded_removeMarker(5,6,7))
  have a': "lmap ex_added = Some view0" by (rule ex_added_fields(1))
  have w': "\<forall>b \<in> set (positionsTree ex_added).
             b = positionBox_of (marker b) (latLng (heap ex_added (marker b)))"
    by (simp add: ex_added_fields positionBox_of_def)
  have v': "\<forall>b \<in> set (positionsTree ex_added). valid_marker ex_added (marker b)"
    by (simp add: ex_added_fields(2) positionBox_of_def ex_added_removeMarker(4,5,6))
  show ?thesis
    using removeMarker_removes_entry_and_redraws_iff_visible [OF a w v, of 2 "[2, 4]"
        "Inner [Leaf [positionBox_of 2 \<lparr>lat = 5, lng = 5\<rparr>, positionBox_of 3 \<lparr>lat = 4, lng = 6\<rparr>],
                Leaf [positionBox_of 4 \<lparr>lat = 50, lng = 50\<rparr>]]"]
      removeMarker_removes_entry_and_redraws_iff_visible [OF a w v, of 4 "[4]" "Leaf []"]
      removeMarker_removes_entry_and_redraws_iff_visible [OF a' w' v', of 4 "[]" "Leaf []"]
    by (simp add: ex_loaded_removeMarker ex_loaded_removeMarkers ex_added_removeMarker ex_loaded_fields
        ex_added_fields positionBox_of_def contains_def view0_def)
qed


lemma removeMarker_not_visible:
  assumes "lmap s = Some mp" and "\<not> contains (getMapBounds mp) (latLng (heap s m))"
  shows "removeMarker m s =
    (s\<lparr>positionsTree := remove (positionBox_of m (latLng (heap s m))) same_leaflet_id (positionsTree s)\<rparr>, None)"
  using assms by (simp add: removeMarker_def Let_def)

lemma ex_row_fields:
  "lmap ex_row = Some view0"
  "positionsTree ex_row =
     [positionBox_of 12 \<lparr>lat = 12, lng = 12\<rparr>, positionBox_of 13 \<lparr>lat = 13, lng = 13\<rparr>,
      positionBox_of 14 \<lparr>lat = 14, lng = 14\<rparr>, positionBox_of 15 \<lparr>lat = 15, lng = 15\<rparr>,
      positionBox_of 16 \<lparr>lat = 16, lng = 16\<rparr>, positionBox_of 17 \<lparr>lat = 17, lng = 17\<rparr>,
      positionBox_of 18 \<lparr>lat = 18, lng = 18\<rparr>, positionBox_of 19 \<lparr>lat = 19, lng = 19\<rparr>,
      positionBox_of 20 \<lparr>lat = 20, lng = 20\<rparr>, positionBox_of 21 \<lparr>lat = 21, lng = 21\<rparr>]"
  "map fst (layers ex_row) = [12, 13, 14, 15, 16, 17, 18, 19, 20, 21]"
proof -
  let ?s = "onAdd view0 (init False heap_row)"
  let ?ms = "[12, 13, 14, 15, 16, 17, 18, 19, 20, 21] :: nat list"
  have m: "lmap ?s = Some view0" by (simp add: onAdd_def init_def)
  have v: "\<forall>m \<in> set ?ms. valid_marker ?s m"
    by (simp add: valid_marker_def onAdd_def init_def heap_row_def marker_at_def icon_a_def)
  note A = addMarkers_valid [OF m v] and B = addMarkers_valid_index [OF m v]
  show "lmap ex_row = Some view0" using A by (simp add: ex_row_def m)
  have "positionsTree ex_row = positionsTree ?s @ map (\<lambda>m. positionBox_of m (latLng (heap ?s m))) ?ms"
    unfolding ex_row_def using B by (rule conjunct1)
  then show "positionsTree ex_row =
     [positionBox_of 12 \<lparr>lat = 12, lng = 12\<rparr>, positionBox_of 13 \<lparr>lat = 13, lng = 13\<rparr>,
      positionBox_of 14 \<lparr>lat = 14, lng = 14\<rparr>, positionBox_of 15 \<lparr>lat = 15, lng = 15\<rparr>,
      positionBox_of 16 \<lparr>lat = 16, lng = 16\<rparr>, positionBox_of 17 \<lparr>lat = 17, lng = 17\<rparr>,
      positionBox_of 18 \<lparr>lat = 18, lng = 18\<rparr>, positionBox_of 19 \<lparr>lat = 19, lng = 19\<rparr>,
      positionBox_of 20 \<lparr>lat = 20, lng = 20\<rparr>, positionBox_of 21 \<lparr>lat = 21, lng = 21\<rparr>]"
    by (simp add: onAdd_def init_def heap_row_def marker_at_def)
  have "layers ex_row = foldl (\<lambda>l m. AList.update m m l) (layers ?s) ?ms"
    unfolding ex_row_def using A by blast
  then show "map fst (layers ex_row) = [12, 13, 14, 15, 16, 17, 18, 19, 20, 21]"
    by (simp add: onAdd_def init_def)
qed

lemma ex_moved_fields:
  "lmap ex_moved = Some view0"
  "positionsTree ex_moved = positionsTree ex_row"
  "layers ex_moved = layers ex_row"
  "latLng (heap ex_moved 15) = \<lparr>lat = 80, lng = 80\<rparr>"
  by (simp_all add: ex_moved_def setLatLng_def ex_row_fields)


text \<open>
  What the library does with a marker that has moved depends on the shape of the tree. In
  a single leaf it finds the item of marker 3 although the box passed in is elsewhere.
  Below an inner root that does not contain the box it finds nothing, and with the box
  under which the item was inserted it finds the item.
\<close>

lemma moved_marker_in_a_single_leaf:
  "tree_remove (positionBox_of 3 \<lparr>lat = 80, lng = 80\<rparr>) same_leaflet_id
     (Leaf [positionBox_of 2 \<lparr>lat = 5, lng = 5\<rparr>, positionBox_of 3 \<lparr>lat = 4, lng = 6\<rparr>,
            positionBox_of 4 \<lparr>lat = 50, lng = 50\<rparr>]) =
   Leaf [positionBox_of 2 \<lparr>lat = 5, lng = 5\<rparr>, positionBox_of 4 \<lparr>lat = 50, lng = 50\<rparr>]"
  by (simp add: tree_remove_def same_leaflet_id_def positionBox_of_def)

lemma moved_marker_below_an_inner_root:
  "items_of ex_row_tree = positionsTree ex_row"
  "tree_remove (positionBox_of 15 \<lparr>lat = 80, lng = 80\<rparr>) same_leaflet_id ex_row_tree = ex_row_tree"
  "tree_remove (positionBox_of 15 \<lparr>lat = 15, lng = 15\<rparr>) same_leaflet_id ex_row_tree =
     Inner [Leaf [positionBox_of 12 \<lparr>lat = 12, lng = 12\<rparr>, positionBox_of 13 \<lparr>lat = 13, lng = 13\<rparr>,
                  positionBox_of 14 \<lparr>lat = 14, lng = 14\<rparr>, positionBox_of 16 \<lparr>lat = 16, lng = 16\<rparr>],
            Leaf [positionBox_of 17 \<lparr>lat = 17, lng = 17\<rparr>, positionBox_of 18 \<lparr>lat = 18, lng = 18\<rparr>,
                  positionBox_of 19 \<lparr>lat = 19, lng = 19\<rparr>, positionBox_of 20 \<lparr>lat = 20, lng = 20\<rparr>,
                  positionBox_of 21 \<lparr>lat = 21, lng = 21\<rparr>]]"
  by (simp_all add: ex_row_tree_def ex_row_fields tree_remove_def node_contains_def same_leaflet_id_def
      positionBox_of_def)


text \<open>
  The claim as it was stated holds of every registered marker and says that the
  coordinates of the box do not count. They do: the library looks for the item where the
  box passed in lies. Ten items loaded at once make a tree whose root is an inner node,
  with the box that holds them all. After the application has moved marker 15 away from
  the ten indexed markers, \<open>removeMarker\<close> passes its new position, the root does not
  contain it, and the item stays: \<open>removeMarker\<close> changes nothing, in the list as in the
  tree.
\<close>

theorem removeMarker_moved_marker_counterexample:
  "map fst (getAllMarkers ex_moved) = [12, 13, 14, 15, 16, 17, 18, 19, 20, 21]
   \<and> map marker (positionsTree ex_moved) = [12, 13, 14, 15, 16, 17, 18, 19, 20, 21]
   \<and> latLng (heap ex_moved 15) = \<lparr>lat = 80, lng = 80\<rparr>
   \<and> removeMarker 15 ex_moved = (ex_moved, None)
   \<and> items_of ex_row_tree = positionsTree ex_moved
   \<and> tree_remove (positionBox_of 15 (latLng (heap ex_moved 15))) same_leaflet_id ex_row_tree = ex_row_tree"
proof -
  have nv: "\<not> contains (getMapBounds view0) (latLng (heap ex_moved 15))"
    by (simp add: ex_moved_fields contains_def view0_def)
  have "remove (positionBox_of 15 (latLng (heap ex_moved 15))) same_leaflet_id (positionsTree ex_moved) =
        positionsTree ex_moved"
    by (simp add: ex_moved_fields ex_row_fields positionBox_of_def same_leaflet_id_def contains_bbox_def)
  then have "removeMarker 15 ex_moved = (ex_moved, None)"
    by (simp add: removeMarker_not_visible [OF ex_moved_fields(1) nv])
  moreover have "items_of ex_row_tree = positionsTree ex_moved"
    by (simp add: moved_marker_below_an_inner_root(1) ex_moved_fields(2))
  moreover have "tree_remove (positionBox_of 15 (latLng (heap ex_moved 15))) same_leaflet_id ex_row_tree =
      ex_row_tree"
    by (simp only: ex_moved_fields(4) moved_marker_below_an_inner_root(2))
  moreover have "map fst (getAllMarkers ex_moved) = [12, 13, 14, 15, 16, 17, 18, 19, 20, 21]"
    by (simp add: getAllMarkers_def ex_moved_fields ex_row_fields)
  moreover have "map marker (positionsTree ex_moved) = [12, 13, 14, 15, 16, 17, 18, 19, 20, 21]"
    by (simp add: ex_moved_fields ex_row_fields positionBox_of_def)
  ultimately show ?thesis
    by (simp only: ex_moved_fields(4) simp_thms)
qed

section \<open>The icon cache in every reachable state\<close>

text \<open>
  A property that \<open>_drawMarker\<close>, the two image handlers and the updates of single fields
  keep is kept by every method and event, and so by every run.
\<close>

lemma run_invariant:
  fixes P :: "state \<Rightarrow> bool"
  assumes dM: "\<And>m xy s. P s \<Longrightarrow> P (fst (drawMarker m xy s))"
    and f_lmap: "\<And>s f. P s \<Longrightarrow> P (s\<lparr>lmap := f\<rparr>)"
    and f_canvas: "\<And>s. P s \<Longrightarrow> P (s\<lparr>canvas := []\<rparr>)"
    and f_layers: "\<And>s l. P s \<Longrightarrow> P (s\<lparr>layers := l\<rparr>)"
    and f_markers: "\<And>s t. P s \<Longrightarrow> P (s\<lparr>markersTree := t\<rparr>)"
    and f_positions: "\<And>s t. P s \<Longrightarrow> P (s\<lparr>positionsTree := t\<rparr>)"
    and f_console: "\<And>s m. P s \<Longrightarrow> P (s\<lparr>console := console s @ [NotAMarker m]\<rparr>)"
    and onload: "\<And>s u. P s \<Longrightarrow> pending s u \<Longrightarrow> P (fst (image_onload u s))"
    and onerror: "\<And>s u. P s \<Longrightarrow> pending s u \<Longrightarrow> P (fst (image_onerror u s))"
  shows "P s \<Longrightarrow> P (run evs s)"
proof -
  have loop: "P s \<Longrightarrow> P (fst (snd (redraw_loop mp bs acc s)))" for mp bs acc s
  proof (induction bs arbitrary: acc s)
    case Nil
    then show ?case by simp
  next
    case (Cons b bs)
    let ?xy = "latLngToContainerPoint mp (latLng (heap s (marker b)))"
    obtain s1 r where d: "drawMarker (marker b) ?xy s = (s1, r)"
      by (cases "drawMarker (marker b) ?xy s")
    have "P s1" using dM [OF Cons.prems, of "marker b" ?xy] d by simp
    then show ?case
      using Cons.IH [of s1] Cons.prems by (simp add: d Let_def split: option.splits)
  qed
  have rd: "P s \<Longrightarrow> P (fst (redraw c s))" for c s
  proof -
    assume p: "P s"
    show ?thesis
    proof (cases "lmap s")
      case None
      then show ?thesis using p by (simp add: redraw_def)
    next
      case (Some mp)
      define s0 where "s0 = (if c then s\<lparr>canvas := []\<rparr> else s)"
      have p0: "P s0" using p f_canvas by (simp add: s0_def)
      define r where "r = redraw_loop mp (search (mapBoundsBox (getMapBounds mp)) (positionsTree s0)) [] s0"
      have p1: "P (fst (snd r))" unfolding r_def by (rule loop [OF p0])
      have "redraw c s = (case r of (markers, s1, Some e) \<Rightarrow> (s1, Some e)
              | (markers, s1, None) \<Rightarrow> (s1\<lparr>markersTree := load markers []\<rparr>, None))"
        by (simp add: redraw_def Some Let_def s0_def r_def)
      then show ?thesis
        using p1 f_markers [OF p1] by (cases r) (auto split: option.splits)
    qed
  qed
  have am: "P s \<Longrightarrow> P (fst (addMarker m s))" for m s
  proof -
    assume p: "P s"
    have a: "\<And>xy s1 r. drawMarker m xy s = (s1, r) \<Longrightarrow> P s1"
      using dM [OF p, of m] by (metis fst_conv)
    show ?thesis
      using p f_console [OF p] f_layers a
      by (auto simp: addMarker_def Let_def split: option.splits prod.splits if_splits)
  qed
  have aml: "P s \<Longrightarrow> P (fst (snd (snd (addMarkers_loop ms mb pb s))))" for ms mb pb s
  proof (induction ms arbitrary: mb pb s)
    case Nil
    then show ?case by simp
  next
    case (Cons m ms)
    obtain s1 r where a: "addMarker m s = (s1, r)" by (cases "addMarker m s")
    have "P s1" using am [OF Cons.prems, of m] a by simp
    then show ?case using Cons.IH [of s1] by (simp add: a split: sum.splits)
  qed
  have ams: "P s \<Longrightarrow> P (fst (addMarkers ms s))" for ms s
  proof -
    assume p: "P s"
    obtain mb pb s1 r where l: "addMarkers_loop ms [] [] s = (mb, pb, s1, r)"
      by (cases "addMarkers_loop ms [] [] s")
    have p1: "P s1" using aml [OF p, of ms "[]" "[]"] l by simp
    have "P (s1\<lparr>markersTree := load mb (markersTree s1), positionsTree := load pb (positionsTree s1)\<rparr>)"
      using f_positions [OF f_markers [OF p1]] by simp
    then show ?thesis using p1 by (simp add: addMarkers_def l split: option.splits)
  qed
  have rm: "P s \<Longrightarrow> P (fst (removeMarker m s))" for m s
    using f_positions rd by (simp add: removeMarker_def Let_def split: option.splits)
  have rml: "P s \<Longrightarrow> P (snd (removeMarkers_loop mp ms h s))" for mp ms h s
  proof (induction ms arbitrary: h s)
    case Nil
    then show ?case by simp
  next
    case (Cons m ms)
    then show ?case using f_positions by (simp add: Let_def)
  qed
  have rms: "P s \<Longrightarrow> P (fst (removeMarkers ms s))" for ms s
  proof -
    assume p: "P s"
    show ?thesis
    proof (cases "lmap s")
      case None
      then show ?thesis using p by (simp add: removeMarkers_def)
    next
      case (Some mp)
      obtain c s1 where l: "removeMarkers_loop mp ms False s = (c, s1)"
        by (cases "removeMarkers_loop mp ms False s")
      have "P s1" using rml [OF p, of mp ms False] l by simp
      then show ?thesis using rd by (simp add: removeMarkers_def Some l)
    qed
  qed
  have cl: "P s \<Longrightarrow> P (fst (clear s))" for s
  proof -
    assume p: "P s"
    have "P (s\<lparr>positionsTree := [], markersTree := [], layers := []\<rparr>)"
      using f_layers [OF f_markers [OF f_positions [OF p]]] by simp
    then show ?thesis unfolding clear_def by (rule rd)
  qed
  have st: "P s \<Longrightarrow> P (step e s)" for e s
  proof (cases e)
    case (OnAdd mp)
    assume p: "P s"
    have "P (s\<lparr>lmap := Some mp, canvas := []\<rparr>)" using f_canvas [OF f_lmap [OF p]] by simp
    then show ?thesis by (simp add: OnAdd onAdd_def)
  next
    case OnRemove
    assume "P s"
    then show ?thesis using f_lmap by (simp add: OnRemove)
  next
    case (MoveEnd mp)
    assume p: "P s"
    then show ?thesis using rd [OF f_lmap [OF p]] by (simp add: MoveEnd reset_def)
  qed (simp_all add: am ams rm rms rd cl onload onerror)
  show "P s \<Longrightarrow> P (run evs s)"
    unfolding run_def by (induction evs arbitrary: s) (simp_all add: st)
qed

lemma drawImage_loads_ok: "loads_ok s \<Longrightarrow> loads_ok (fst (drawImage m xy s))"
  by (simp add: loads_ok_def drawImage_frame)

lemma drawMarker_loads_ok: "loads_ok s \<Longrightarrow> loads_ok (fst (drawMarker m xy s))"
proof -
  assume a: "loads_ok s"
  have i: "\<And>img. loads_ok (set_image m img s)"
    using a by (simp add: loads_ok_def set_image_def)
  have b: "\<And>img. loads_ok (fst (drawImage m xy (set_image m img s)))"
    by (rule drawImage_loads_ok [OF i])
  have c: "\<And>u e e' img. icons s u = Some e \<Longrightarrow>
      loads_ok ((set_image m img s)\<lparr>icons := (icons (set_image m img s))(u \<mapsto> e')\<rparr>)"
    using a by (auto simp: loads_ok_def set_image_def)
  have d: "\<And>u e img. icons s u = None \<Longrightarrow>
      loads_ok ((set_image m img (s\<lparr>loads := loads s @ [u]\<rparr>))
        \<lparr>icons := (icons (set_image m img (s\<lparr>loads := loads s @ [u]\<rparr>)))(u \<mapsto> e)\<rparr>)"
    using a by (auto simp: loads_ok_def set_image_def)
  show ?thesis
    using a b c d drawImage_loads_ok [OF a, of m xy]
    by (simp add: drawMarker_def Let_def split: option.splits)
qed

lemma flush_icons_loads:
  "icons (fst (flush es s)) = icons s \<and> loads (fst (flush es s)) = loads s"
proof (induction es arbitrary: s)
  case Nil
  show ?case by simp
next
  case (Cons q es)
  obtain m x y where q: "q = (m, x, y)" by (cases q)
  show ?case
  proof (cases "lmap s")
    case None
    then show ?thesis by (simp add: q)
  next
    case (Some mp)
    let ?xy = "latLngToContainerPoint mp (latLng (heap s m))"
    obtain s1 r where d: "drawImage m ?xy s = (s1, r)" by (cases "drawImage m ?xy s")
    have "icons s1 = icons s" "loads s1 = loads s"
      using drawImage_frame(6,8) [of m ?xy s] d by simp_all
    then show ?thesis
      using Cons.IH [of s1] by (simp add: q Some d split: option.splits)
  qed
qed

lemma image_onload_loads_ok: "loads_ok s \<Longrightarrow> loads_ok (fst (image_onload u s))"
  by (auto simp: loads_ok_def image_onload_def flush_icons_loads split: option.splits)

lemma image_onerror_loads_ok: "loads_ok s \<Longrightarrow> loads_ok (fst (image_onerror u s))"
  by (auto simp: loads_ok_def image_onerror_def split: option.splits)

text \<open>
  No URL is fetched twice: in every state a layer can reach, the loads it has started are
  for pairwise different URLs.
\<close>

theorem no_url_loaded_twice:
  "distinct (loads (run evs (init bg h)))"
proof -
  have "loads_ok (run evs (init bg h))"
  proof (rule run_invariant [where P = loads_ok])
    show "loads_ok (init bg h)" by (simp add: loads_ok_def init_def)
  qed (simp_all add: drawMarker_loads_ok image_onload_loads_ok image_onerror_loads_ok, simp_all add: loads_ok_def)
  then show ?thesis by (simp add: loads_ok_def)
qed

theorem no_url_loaded_twice_witness:
  "loads (run [OnAdd view0, AddMarkers [2, 3, 4], MoveEnd view1, AddMarkers [2, 3], Redraw True]
      (init False heap0)) = [''a.png'']"
  using no_url_loaded_twice [of "[OnAdd view0, AddMarkers [2, 3, 4], MoveEnd view1, AddMarkers [2, 3], Redraw True]"
      False heap0]
  by (simp add: run_def reset_def fixture_defs engine_defs)

text \<open>
  The part of claim C3 that holds: a request for a marker without an image, made while
  the image of its URL is pending, draws nothing, starts no load, gives the marker the
  pending image and joins the end of the queue.
\<close>

theorem pending_request_is_queued:
  assumes "icons s u = Some e" and "\<not> isLoaded e" and "\<not> hasErrored e" and "fresh s u m"
  shows "snd (drawMarker m xy s) = None \<and>
         canvas (fst (drawMarker m xy s)) = canvas s \<and>
         loads (fst (drawMarker m xy s)) = loads s \<and>
         icons (fst (drawMarker m xy s)) =
           (icons s)(u \<mapsto> e\<lparr>elements := elements e @ [(m, fst xy, snd xy)]\<rparr>) \<and>
         marker_image (heap (fst (drawMarker m xy s)) m) = Some (icon_image e)"
  by (simp add: drawMarker_pending [OF assms] set_image_def)

theorem pending_request_is_queued_witness:
  "canvas (fst (drawMarker 4 (500, - 400) ex_queued)) = []
   \<and> map_option elements (icons (fst (drawMarker 4 (500, - 400) ex_queued)) ''a.png'') =
       Some [(2, 50, 50), (3, 60, 60), (4, 500, - 400)]
   \<and> loads (fst (drawMarker 4 (500, - 400) ex_queued)) = [''a.png'']"
proof -
  have f: "fresh ex_queued ''a.png'' 4"
    by (simp add: fresh_def ex_queued_def fixture_defs engine_defs)
  show ?thesis
    using pending_request_is_queued [OF ex_queued_fields(2) _ _ f, of "(500, - 400)"]
    by (simp add: ex_queued_fields)
qed

lemma iconUrl_of_cong:
  "options (heap s' m) = options (heap s m) \<Longrightarrow> iconUrl_of s' m = iconUrl_of s m"
  by (simp add: iconUrl_of_def)

lemma iconUrl_of_set_image [simp]: "iconUrl_of (set_image m img s) k = iconUrl_of s k"
  by (rule iconUrl_of_cong) (simp add: set_image_def)

lemma iconUrl_of_updates [simp]:
  "iconUrl_of (s\<lparr>icons := ic\<rparr>) k = iconUrl_of s k"
  "iconUrl_of (s\<lparr>loads := l\<rparr>) k = iconUrl_of s k"
  "iconUrl_of (s\<lparr>lmap := f\<rparr>) k = iconUrl_of s k"
  "iconUrl_of (s\<lparr>canvas := c\<rparr>) k = iconUrl_of s k"
  "iconUrl_of (s\<lparr>layers := ls\<rparr>) k = iconUrl_of s k"
  "iconUrl_of (s\<lparr>markersTree := t\<rparr>) k = iconUrl_of s k"
  "iconUrl_of (s\<lparr>positionsTree := t\<rparr>) k = iconUrl_of s k"
  "iconUrl_of (s\<lparr>console := cs\<rparr>) k = iconUrl_of s k"
  by (simp_all add: iconUrl_of_def)

lemma icons_set_image [simp]: "icons (set_image m img s) = icons s"
  by (simp add: set_image_def)

lemma console_set_image [simp]: "console (set_image m img s) = console s"
  by (simp add: set_image_def)

lemma queues_ok_cong:
  assumes "icons s' = icons s" and "\<And>k. options (heap s' k) = options (heap s k)"
  shows "queues_ok s' = queues_ok s"
proof -
  have "\<And>k. iconUrl_of s' k = iconUrl_of s k" by (rule iconUrl_of_cong) (rule assms(2))
  then show ?thesis by (simp add: queues_ok_def assms(1))
qed

lemma diagnostics_ok_cong:
  "icons s' = icons s \<Longrightarrow> console s' = console s \<Longrightarrow> diagnostics_ok s' = diagnostics_ok s"
  by (simp add: diagnostics_ok_def errored_def)

lemma drawImage_queues_diag:
  "queues_ok (fst (drawImage m xy s)) = queues_ok s"
  "diagnostics_ok (fst (drawImage m xy s)) = diagnostics_ok s"
  by (rule queues_ok_cong, simp_all add: drawImage_frame)
    (rule diagnostics_ok_cong, simp_all add: drawImage_frame)

lemma set_image_queues_diag:
  "queues_ok (set_image m img s) = queues_ok s"
  "diagnostics_ok (set_image m img s) = diagnostics_ok s"
  by (simp_all add: queues_ok_def diagnostics_ok_def errored_def)

lemma drawMarker_url:
  "snd (drawMarker m xy s) = None \<or> fst (drawMarker m xy s) \<noteq> s \<Longrightarrow> iconUrl_of s m \<noteq> None"
  by (auto simp: drawMarker_def iconUrl_of_def split: option.splits)

lemma drawMarker_queues_ok: "queues_ok s \<Longrightarrow> queues_ok (fst (drawMarker m xy s))"
proof -
  assume a: "queues_ok s"
  show ?thesis
  proof (cases "iconUrl_of s m")
    case None
    then show ?thesis using a by (simp add: drawMarker_def iconUrl_of_def)
  next
    case (Some u)
    have u: "(case icon (options (heap s m)) of None \<Rightarrow> None | Some io \<Rightarrow> iconUrl io) = Some u"
      using Some by (simp add: iconUrl_of_def)
    have b: "\<And>img. queues_ok (fst (drawImage m xy (set_image m img s)))"
      using a by (simp add: drawImage_queues_diag set_image_queues_diag)
    have c: "\<And>e img. icons s u = Some e \<Longrightarrow>
      queues_ok ((set_image m img s)\<lparr>icons := (icons (set_image m img s))(u \<mapsto>
          e\<lparr>elements := elements e @ [(m, fst xy, snd xy)]\<rparr>)\<rparr>)"
      using a Some by (auto simp: queues_ok_def)
    have d: "\<And>img f.
      queues_ok ((set_image m img (s\<lparr>loads := loads s @ [u]\<rparr>))
        \<lparr>icons := (icons (set_image m img (s\<lparr>loads := loads s @ [u]\<rparr>)))(u \<mapsto>
            \<lparr> isLoaded = False, icon_image = img, elements = [(m, fst xy, snd xy)], hasErrored = f \<rparr>)\<rparr>)"
      using a Some by (auto simp: queues_ok_def)
    show ?thesis
      using a b c d
      by (simp add: drawMarker_def u Let_def drawImage_queues_diag split: option.splits)
  qed
qed

lemma drawMarker_diagnostics_ok: "diagnostics_ok s \<Longrightarrow> diagnostics_ok (fst (drawMarker m xy s))"
proof -
  assume a: "diagnostics_ok s"
  have b: "\<And>img. diagnostics_ok (fst (drawImage m xy (set_image m img s)))"
    using a by (simp add: drawImage_queues_diag set_image_queues_diag)
  have c: "\<And>u e img. icons s u = Some e \<Longrightarrow>
      diagnostics_ok ((set_image m img s)\<lparr>icons := (icons (set_image m img s))(u \<mapsto>
          e\<lparr>elements := elements e @ [(m, fst xy, snd xy)]\<rparr>)\<rparr>)"
    using a by (auto simp: diagnostics_ok_def errored_def)
  have d: "\<And>u img el. icons s u = None \<Longrightarrow>
      diagnostics_ok ((set_image m img (s\<lparr>loads := loads s @ [u]\<rparr>))
        \<lparr>icons := (icons (set_image m img (s\<lparr>loads := loads s @ [u]\<rparr>)))(u \<mapsto>
            \<lparr> isLoaded = False, icon_image = img, elements = el, hasErrored = False \<rparr>)\<rparr>)"
    using a by (auto simp: diagnostics_ok_def errored_def)
  show ?thesis
    using a b c d
    by (simp add: drawMarker_def Let_def drawImage_queues_diag split: option.splits)
qed

lemma flush_heap_console:
  "heap (fst (flush es s)) = heap s \<and> console (fst (flush es s)) = console s"
proof (induction es arbitrary: s)
  case Nil
  show ?case by simp
next
  case (Cons q es)
  obtain m x y where q: "q = (m, x, y)" by (cases q)
  show ?case
  proof (cases "lmap s")
    case None
    then show ?thesis by (simp add: q)
  next
    case (Some mp)
    let ?xy = "latLngToContainerPoint mp (latLng (heap s m))"
    obtain s1 r where d: "drawImage m ?xy s = (s1, r)" by (cases "drawImage m ?xy s")
    have "heap s1 = heap s" "console s1 = console s"
      using drawImage_frame(7,9) [of m ?xy s] d by simp_all
    then show ?thesis
      using Cons.IH [of s1] by (simp add: q Some d split: option.splits)
  qed
qed

lemma image_onload_queues_ok: "queues_ok s \<Longrightarrow> queues_ok (fst (image_onload u s))"
proof (cases "icons s u")
  case None
  assume "queues_ok s"
  then show ?thesis by (simp add: image_onload_def None)
next
  case (Some e)
  assume a: "queues_ok s"
  let ?s1 = "s\<lparr>icons := (icons s)(u \<mapsto> e\<lparr>isLoaded := True\<rparr>)\<rparr>"
  have "queues_ok ?s1" using a Some by (auto simp: queues_ok_def)
  moreover have "queues_ok (fst (flush (elements e) ?s1)) = queues_ok ?s1"
    by (rule queues_ok_cong) (simp_all add: flush_icons_loads flush_heap_console)
  ultimately show ?thesis by (simp add: image_onload_def Some)
qed

lemma image_onload_diagnostics_ok: "diagnostics_ok s \<Longrightarrow> diagnostics_ok (fst (image_onload u s))"
proof (cases "icons s u")
  case None
  assume "diagnostics_ok s"
  then show ?thesis by (simp add: image_onload_def None)
next
  case (Some e)
  assume a: "diagnostics_ok s"
  let ?s1 = "s\<lparr>icons := (icons s)(u \<mapsto> e\<lparr>isLoaded := True\<rparr>)\<rparr>"
  have "diagnostics_ok ?s1" using a Some by (auto simp: diagnostics_ok_def errored_def)
  moreover have "diagnostics_ok (fst (flush (elements e) ?s1)) = diagnostics_ok ?s1"
    by (rule diagnostics_ok_cong) (simp_all add: flush_icons_loads flush_heap_console)
  ultimately show ?thesis by (simp add: image_onload_def Some)
qed

lemma image_onerror_queues_ok: "queues_ok s \<Longrightarrow> queues_ok (fst (image_onerror u s))"
  by (auto simp: queues_ok_def image_onerror_def split: option.splits)

lemma image_onerror_diagnostics_ok:
  "diagnostics_ok s \<Longrightarrow> pending s u \<Longrightarrow> diagnostics_ok (fst (image_onerror u s))"
  by (auto simp: diagnostics_ok_def errored_def pending_def image_onerror_def split: option.splits)

lemma reachable_queues_diagnostics:
  "queues_ok (run evs (init bg h)) \<and> diagnostics_ok (run evs (init bg h))"
proof (rule run_invariant [where P = "\<lambda>s. queues_ok s \<and> diagnostics_ok s"])
  show "queues_ok (init bg h) \<and> diagnostics_ok (init bg h)"
    by (simp add: queues_ok_def diagnostics_ok_def errored_def init_def)
qed (simp_all add: drawMarker_queues_ok drawMarker_diagnostics_ok image_onload_queues_ok
      image_onload_diagnostics_ok image_onerror_queues_ok image_onerror_diagnostics_ok,
    simp_all add: queues_ok_def diagnostics_ok_def errored_def)

lemma drawImage_canvas_set:
  "set (canvas (fst (drawImage m xy s))) \<subseteq> set (canvas s) \<union> {d. d_marker d = m}"
  by (auto simp: drawImage_def Let_def split: option.splits)

lemma drawMarker_canvas_set:
  "set (canvas (fst (drawMarker m xy s))) \<subseteq> set (canvas s) \<union> {d. d_marker d = m}"
proof -
  have a: "\<And>img. set (canvas (fst (drawImage m xy (set_image m img s)))) \<subseteq> set (canvas s) \<union> {d. d_marker d = m}"
    using drawImage_canvas_set [of m xy "set_image m _ s"] by (simp add: set_image_def)
  show ?thesis
    using a drawImage_canvas_set [of m xy s]
    by (simp add: drawMarker_def Let_def set_image_def split: option.splits)
qed

lemma drawMarker_errored_canvas:
  "errored s u \<Longrightarrow> iconUrl_of s m = Some u \<Longrightarrow> canvas (fst (drawMarker m xy s)) = canvas s"
  by (auto simp: drawMarker_def errored_def iconUrl_of_def split: option.splits)

lemma drawMarker_errored:
  "errored s u \<Longrightarrow> errored (fst (drawMarker m xy s)) u"
proof -
  assume a: "errored s u"
  have b: "\<And>s'. icons s' = icons s \<Longrightarrow> errored s' u" using a by (simp add: errored_def)
  have c: "\<And>(s' :: state) u' e el. icons s u' = Some e \<Longrightarrow>
     errored (s'\<lparr>icons := (icons s)(u' \<mapsto> e\<lparr>elements := el\<rparr>)\<rparr>) u"
    using a by (auto simp: errored_def)
  have d: "\<And>(s' :: state) u' e. icons s u' = None \<Longrightarrow> errored (s'\<lparr>icons := (icons s)(u' \<mapsto> e)\<rparr>) u"
    using a by (auto simp: errored_def)
  show ?thesis
    using a b c d
    by (simp add: drawMarker_def Let_def drawImage_frame split: option.splits)
qed

lemma drawMarker_after_failure:
  assumes "after_failure s1 u s"
  shows "after_failure s1 u (fst (drawMarker m xy s))"
proof -
  let ?s' = "fst (drawMarker m xy s)"
  have q: "queues_ok s" and g: "diagnostics_ok s" and e: "errored s u"
    and o: "\<And>k. options (heap s k) = options (heap s1 k)"
    and c: "\<And>d. d \<in> set (canvas s) \<Longrightarrow> iconUrl_of s1 (d_marker d) = Some u \<Longrightarrow> d \<in> set (canvas s1)"
    using assms by (simp_all add: after_failure_def)
  have o': "\<And>k. options (heap ?s' k) = options (heap s1 k)"
    by (simp add: drawMarker_heap o)
  have url: "iconUrl_of s m = iconUrl_of s1 m" by (rule iconUrl_of_cong) (rule o)
  have c': "\<And>d. d \<in> set (canvas ?s') \<Longrightarrow> iconUrl_of s1 (d_marker d) = Some u \<Longrightarrow> d \<in> set (canvas s1)"
  proof -
    fix d assume d: "d \<in> set (canvas ?s')" and du: "iconUrl_of s1 (d_marker d) = Some u"
    show "d \<in> set (canvas s1)"
    proof (cases "d \<in> set (canvas s)")
      case True
      then show ?thesis using c du by blast
    next
      case False
      then have "d_marker d = m" using d drawMarker_canvas_set [of m xy s] by auto
      then have "iconUrl_of s m = Some u" using du url by simp
      then have "canvas ?s' = canvas s" by (rule drawMarker_errored_canvas [OF e])
      then show ?thesis using d False by simp
    qed
  qed
  show ?thesis
    using drawMarker_queues_ok [OF q] drawMarker_diagnostics_ok [OF g] drawMarker_errored [OF e] o' c'
    by (simp add: after_failure_def)
qed

lemma flush_canvas_set:
  "set (canvas (fst (flush es s))) \<subseteq> set (canvas s) \<union> {d. d_marker d \<in> fst ` set es}"
proof (induction es arbitrary: s)
  case Nil
  show ?case by simp
next
  case (Cons q es)
  obtain m x y where q: "q = (m, x, y)" by (cases q)
  show ?case
  proof (cases "lmap s")
    case None
    then show ?thesis by (simp add: q)
  next
    case (Some mp)
    let ?xy = "latLngToContainerPoint mp (latLng (heap s m))"
    obtain s1 r where d: "drawImage m ?xy s = (s1, r)" by (cases "drawImage m ?xy s")
    have a: "set (canvas s1) \<subseteq> set (canvas s) \<union> {d. d_marker d = m}"
      using drawImage_canvas_set [of m ?xy s] d by simp
    have b: "set (canvas (fst (flush es s1))) \<subseteq> set (canvas s1) \<union> {d. d_marker d \<in> fst ` set es}"
      by (rule Cons.IH)
    show ?thesis
    proof (cases r)
      case None
      then show ?thesis using a b by (auto simp: q Some d)
    next
      case (Some e)
      then show ?thesis using a by (auto simp: q \<open>lmap s = Some mp\<close> d)
    qed
  qed
qed

lemma image_onload_after_failure:
  assumes "after_failure s1 u s" and "pending s v"
  shows "after_failure s1 u (fst (image_onload v s))"
proof -
  have q: "queues_ok s" and g: "diagnostics_ok s" and e: "errored s u"
    and o: "\<And>k. options (heap s k) = options (heap s1 k)"
    and c: "\<And>d. d \<in> set (canvas s) \<Longrightarrow> iconUrl_of s1 (d_marker d) = Some u \<Longrightarrow> d \<in> set (canvas s1)"
    using assms(1) by (simp_all add: after_failure_def)
  obtain en where en: "icons s v = Some en" and pn: "\<not> hasErrored en"
    using assms(2) by (auto simp: pending_def split: option.splits)
  have vu: "v \<noteq> u" using e en pn by (auto simp: errored_def)
  let ?s0 = "s\<lparr>icons := (icons s)(v \<mapsto> en\<lparr>isLoaded := True\<rparr>)\<rparr>"
  let ?s' = "fst (image_onload v s)"
  have s': "?s' = fst (flush (elements en) ?s0)" by (simp add: image_onload_def en)
  have ic: "icons ?s' = icons ?s0" and hp: "heap ?s' = heap s"
    by (simp_all add: s' flush_icons_loads flush_heap_console)
  have e': "errored ?s' u" using e vu by (simp add: errored_def ic)
  have o': "\<And>k. options (heap ?s' k) = options (heap s1 k)" by (simp add: hp o)
  have c': "\<And>d. d \<in> set (canvas ?s') \<Longrightarrow> iconUrl_of s1 (d_marker d) = Some u \<Longrightarrow> d \<in> set (canvas s1)"
  proof -
    fix d assume d: "d \<in> set (canvas ?s')" and du: "iconUrl_of s1 (d_marker d) = Some u"
    show "d \<in> set (canvas s1)"
    proof (cases "d \<in> set (canvas s)")
      case True
      then show ?thesis using c du by blast
    next
      case False
      then have "d_marker d \<in> fst ` set (elements en)"
        using d flush_canvas_set [of "elements en" ?s0] by (auto simp: s')
      then obtain qe where qe: "qe \<in> set (elements en)" "fst qe = d_marker d" by auto
      have "iconUrl_of s (fst qe) = Some v" using q en qe(1) by (auto simp: queues_ok_def)
      moreover have "iconUrl_of s (fst qe) = iconUrl_of s1 (fst qe)" by (rule iconUrl_of_cong) (rule o)
      ultimately show ?thesis using du vu qe(2) by simp
    qed
  qed
  show ?thesis
    using image_onload_queues_ok [OF q] image_onload_diagnostics_ok [OF g] e' o' c'
    by (simp add: after_failure_def)
qed

lemma image_onerror_after_failure:
  assumes "after_failure s1 u s" and "pending s v"
  shows "after_failure s1 u (fst (image_onerror v s))"
proof -
  have q: "queues_ok s" and g: "diagnostics_ok s" and e: "errored s u"
    and o: "\<And>k. options (heap s k) = options (heap s1 k)"
    and c: "\<And>d. d \<in> set (canvas s) \<Longrightarrow> iconUrl_of s1 (d_marker d) = Some u \<Longrightarrow> d \<in> set (canvas s1)"
    using assms(1) by (simp_all add: after_failure_def)
  have e': "errored (fst (image_onerror v s)) u"
    using e by (auto simp: errored_def image_onerror_def split: option.splits)
  have f: "heap (fst (image_onerror v s)) = heap s" "canvas (fst (image_onerror v s)) = canvas s"
    by (simp_all add: image_onerror_def split: option.splits)
  show ?thesis
    using image_onerror_queues_ok [OF q] image_onerror_diagnostics_ok [OF g assms(2)] e' o c
    by (simp add: after_failure_def f)
qed

text \<open>
  The part of claim C4 that holds. Once the load of a URL has failed, whatever happens
  to the layer afterwards: the failure stands; no draw of a marker with that URL is added
  to the canvas; and the console holds exactly one diagnostic for the URL.
\<close>

theorem failed_icon_stays_failed:
  assumes "errored (run evs1 (init bg h)) u"
  shows "errored (run evs2 (run evs1 (init bg h))) u \<and>
         (\<forall>d \<in> set (canvas (run evs2 (run evs1 (init bg h)))).
            iconUrl_of (run evs1 (init bg h)) (d_marker d) = Some u \<longrightarrow>
            d \<in> set (canvas (run evs1 (init bg h)))) \<and>
         count_list (console (run evs2 (run evs1 (init bg h)))) (ImageNotLoaded u) = 1"
proof -
  let ?s1 = "run evs1 (init bg h)"
  have a: "after_failure ?s1 u ?s1"
    using assms reachable_queues_diagnostics [of evs1 bg h] by (simp add: after_failure_def)
  have "after_failure ?s1 u (run evs2 ?s1)"
  proof (rule run_invariant [where P = "after_failure ?s1 u"])
    show "after_failure ?s1 u ?s1" by (rule a)
  qed (simp_all add: drawMarker_after_failure image_onload_after_failure image_onerror_after_failure,
      simp_all add: after_failure_def queues_ok_def diagnostics_ok_def errored_def)
  then show ?thesis
    by (simp add: after_failure_def diagnostics_ok_def)
qed

theorem failed_icon_stays_failed_witness:
  "errored (run [OnAdd view0, AddMarkers [2, 3], ImageError ''a.png''] (init False heap0)) ''a.png''
   \<and> canvas (run [MoveEnd view1, AddMarkers [4], ImageLoad ''a.png'', Redraw False]
        (run [OnAdd view0, AddMarkers [2, 3], ImageError ''a.png''] (init False heap0))) = []
   \<and> console (run [MoveEnd view1, AddMarkers [4], ImageLoad ''a.png'', Redraw False]
        (run [OnAdd view0, AddMarkers [2, 3], ImageError ''a.png''] (init False heap0))) =
       [ImageNotLoaded ''a.png'']"
proof -
  have e: "errored (run [OnAdd view0, AddMarkers [2, 3], ImageError ''a.png''] (init False heap0)) ''a.png''"
    by (simp add: errored_def run_def pending_def fixture_defs engine_defs)
  show ?thesis
    using failed_icon_stays_failed [OF e, of "[MoveEnd view1, AddMarkers [4], ImageLoad ''a.png'', Redraw False]"]
    by (simp add: errored_def run_def pending_def reset_def fixture_defs engine_defs)
qed

end
